theory Spec2Isabelle
  imports Complex_Main "HOL-Library.Log_Nat"
begin

section \<open>JavaScript numbers\<close>

text \<open>
  A JavaScript number is an IEEE 754 double. A finite double is modelled by the rational
  it denotes, the three other values by constructors of their own. Every arithmetic
  operation of the source computes the exact rational result and rounds it to the
  nearest double, ties to even (\<open>dbl\<close>), so that a product such as \<open>length * 0.7\<close>
  has the value the engine computes. The sign of zero is not modelled: the program
  never divides by a value that can be a negative zero.
\<close>

datatype jsnum = Fin rat | NaN | PInf | NInf

definition ilog2 :: "rat \<Rightarrow> int" where
  \<comment> \<open>for \<open>0 < x\<close>: the exponent \<open>e\<close> with \<open>2^e \<le> x < 2^(e+1)\<close>\<close>
  "ilog2 x = (if 1 \<le> x then int (floorlog 2 (nat \<lfloor>x\<rfloor>)) - 1
              else - int (floorlog 2 (nat (\<lceil>1 / x\<rceil> - 1))))"

definition rne :: "rat \<Rightarrow> int" where
  \<comment> \<open>nearest integer, a tie goes to the even neighbour\<close>
  "rne y = (let f = \<lfloor>y\<rfloor>; d = y - of_int f
            in if d < 1 / 2 then f else if 1 / 2 < d then f + 1
               else if even f then f else f + 1)"

definition ulp :: "rat \<Rightarrow> rat" where
  \<comment> \<open>the spacing of the doubles around \<open>a\<close>: 53 significant bits, least exponent -1022\<close>
  "ulp a = 2 powi (max (ilog2 a) (- 1022) - 52)"

definition rnd :: "rat \<Rightarrow> rat" where
  "rnd a = of_int (rne (a / ulp a)) * ulp a"

definition dbl :: "rat \<Rightarrow> jsnum" where
  \<comment> \<open>the double nearest to a rational; beyond the largest double it is an infinity\<close>
  "dbl x = (if x = 0 then Fin 0
            else let r = rnd \<bar>x\<bar>
                 in if 1024 \<le> ilog2 r then (if 0 < x then PInf else NInf)
                    else Fin (if 0 < x then r else - r))"

definition lit :: "rat \<Rightarrow> jsnum" where
  \<comment> \<open>a decimal literal of the source text, such as \<open>0.7\<close>\<close>
  "lit q = dbl q"

definition jneg :: "jsnum \<Rightarrow> jsnum" where
  "jneg x = (case x of Fin a \<Rightarrow> Fin (- a) | NaN \<Rightarrow> NaN | PInf \<Rightarrow> NInf | NInf \<Rightarrow> PInf)"

fun jadd :: "jsnum \<Rightarrow> jsnum \<Rightarrow> jsnum" where
  "jadd (Fin a) (Fin b) = dbl (a + b)"
| "jadd NaN _ = NaN"
| "jadd _ NaN = NaN"
| "jadd PInf NInf = NaN"
| "jadd NInf PInf = NaN"
| "jadd PInf _ = PInf"
| "jadd _ PInf = PInf"
| "jadd NInf _ = NInf"
| "jadd _ NInf = NInf"

definition jsub :: "jsnum \<Rightarrow> jsnum \<Rightarrow> jsnum" where
  "jsub x y = jadd x (jneg y)"

fun jmul :: "jsnum \<Rightarrow> jsnum \<Rightarrow> jsnum" where
  "jmul (Fin a) (Fin b) = dbl (a * b)"
| "jmul NaN _ = NaN"
| "jmul _ NaN = NaN"
| "jmul (Fin a) y = (if a = 0 then NaN else if 0 < a then y else jneg y)"
| "jmul x (Fin b) = (if b = 0 then NaN else if 0 < b then x else jneg x)"
| "jmul PInf y = y"
| "jmul NInf y = jneg y"

fun jdiv :: "jsnum \<Rightarrow> jsnum \<Rightarrow> jsnum" where
  "jdiv (Fin a) (Fin b) =
     (if b = 0 then (if a = 0 then NaN else if 0 < a then PInf else NInf)
      else dbl (a / b))"
| "jdiv NaN _ = NaN"
| "jdiv _ NaN = NaN"
| "jdiv (Fin a) _ = Fin 0"
| "jdiv x (Fin b) = (if 0 \<le> b then x else jneg x)"
| "jdiv _ _ = NaN"

fun jlt :: "jsnum \<Rightarrow> jsnum \<Rightarrow> bool" where
  "jlt (Fin a) (Fin b) = (a < b)"
| "jlt NaN _ = False"
| "jlt _ NaN = False"
| "jlt NInf y = (y \<noteq> NInf)"
| "jlt x PInf = (x \<noteq> PInf)"
| "jlt _ _ = False"

definition jgt :: "jsnum \<Rightarrow> jsnum \<Rightarrow> bool" where
  "jgt x y = jlt y x"

definition jle :: "jsnum \<Rightarrow> jsnum \<Rightarrow> bool" where
  "jle x y = (jlt x y \<or> (x = y \<and> x \<noteq> NaN))"

definition jge :: "jsnum \<Rightarrow> jsnum \<Rightarrow> bool" where
  "jge x y = jle y x"

definition isNaN :: "jsnum \<Rightarrow> bool" where
  "isNaN x = (x = NaN)"

definition Math_round :: "jsnum \<Rightarrow> jsnum" where
  \<comment> \<open>the nearest integer, a tie goes up\<close>
  "Math_round x = (case x of Fin a \<Rightarrow> Fin (of_int \<lfloor>a + 1 / 2\<rfloor>) | _ \<Rightarrow> x)"

definition Math_floor :: "jsnum \<Rightarrow> jsnum" where
  "Math_floor x = (case x of Fin a \<Rightarrow> Fin (of_int \<lfloor>a\<rfloor>) | _ \<Rightarrow> x)"

definition Math_max :: "jsnum \<Rightarrow> jsnum \<Rightarrow> jsnum" where
  "Math_max x y = (if x = NaN \<or> y = NaN then NaN else if jlt x y then y else x)"

definition num :: "nat \<Rightarrow> jsnum" where
  \<comment> \<open>an array length or a counter: an integer below \<open>2^53\<close>, which is a double\<close>
  "num n = Fin (of_nat n)"

definition toIndex :: "jsnum \<Rightarrow> nat" where
  \<comment> \<open>a non-negative integral number used as an array index\<close>
  "toIndex x = (case x of Fin a \<Rightarrow> nat \<lfloor>a\<rfloor> | _ \<Rightarrow> 0)"

section \<open>Strings\<close>

text \<open>
  A string is a list of characters, and the text that is modelled is ASCII text
  (\<open>isAscii\<close>): there \<open>toLowerCase\<close>, \<open>toUpperCase\<close>, \<open>trim\<close> and the class \<open>\s\<close> of the
  regular expressions are what the engine computes. Beyond ASCII the engine also maps
  the letters of other alphabets and removes other blanks (such as the no-break space),
  which the functions below leave alone; a statement about arbitrary text of a dataset
  therefore takes the dataset to be ASCII (\<open>asciiData\<close>, below).
\<close>

definition isAscii :: "string \<Rightarrow> bool" where
  "isAscii s = list_all (\<lambda>c. (of_char c :: nat) < 128) s"

definition isWhiteSpace :: "char \<Rightarrow> bool" where
  \<comment> \<open>\<open>\s\<close>, and what \<open>trim\<close> removes: tab, line feed, vertical tab, form feed, carriage return, space\<close>
  "isWhiteSpace c = ((of_char c :: nat) \<in> {9, 10, 11, 12, 13, 32})"

definition isDigit :: "char \<Rightarrow> bool" where
  "isDigit c = (48 \<le> (of_char c :: nat) \<and> (of_char c :: nat) \<le> 57)"

definition isLineTerminator :: "char \<Rightarrow> bool" where
  "isLineTerminator c = ((of_char c :: nat) \<in> {10, 13})"

definition trim :: "string \<Rightarrow> string" where
  "trim s = rev (dropWhile isWhiteSpace (rev (dropWhile isWhiteSpace s)))"

definition lowerChar :: "char \<Rightarrow> char" where
  "lowerChar c = (let n = (of_char c :: nat) in if 65 \<le> n \<and> n \<le> 90 then char_of (n + 32) else c)"

definition upperChar :: "char \<Rightarrow> char" where
  "upperChar c = (let n = (of_char c :: nat) in if 97 \<le> n \<and> n \<le> 122 then char_of (n - 32) else c)"

definition toLowerCase :: "string \<Rightarrow> string" where
  "toLowerCase s = map lowerChar s"

definition toUpperCase :: "string \<Rightarrow> string" where
  "toUpperCase s = map upperChar s"

fun startsWith :: "string \<Rightarrow> string \<Rightarrow> bool" where
  "startsWith s [] = True"
| "startsWith [] (p # ps) = False"
| "startsWith (c # cs) (p # ps) = (c = p \<and> startsWith cs ps)"

fun includes_str :: "string \<Rightarrow> string \<Rightarrow> bool" where
  \<comment> \<open>\<open>s.includes(p)\<close>\<close>
  "includes_str [] p = (p = [])"
| "includes_str (c # cs) p = (startsWith (c # cs) p \<or> includes_str cs p)"

definition charAt0 :: "string \<Rightarrow> string" where
  \<comment> \<open>\<open>s.charAt(0)\<close>: the first character, or the empty string\<close>
  "charAt0 s = take 1 s"

definition slice1 :: "string \<Rightarrow> string" where
  \<comment> \<open>\<open>s.slice(1)\<close>\<close>
  "slice1 s = drop 1 s"

fun collapseFrom :: "bool \<Rightarrow> string \<Rightarrow> string" where
  \<comment> \<open>the flag says that the character before was white space\<close>
  "collapseFrom inRun [] = []"
| "collapseFrom inRun (c # cs) =
     (if isWhiteSpace c then (if inRun then collapseFrom True cs else CHR '' '' # collapseFrom True cs)
      else c # collapseFrom False cs)"

definition collapseSpaces :: "string \<Rightarrow> string" where
  \<comment> \<open>\<open>s.replace(/\s+/g, ' ')\<close>: every run of white space becomes one space\<close>
  "collapseSpaces s = collapseFrom False s"

definition stripPhone :: "string \<Rightarrow> string" where
  \<comment> \<open>\<open>s.replace(/[\s\-\(\)]/g, '')\<close>\<close>
  "stripPhone s = filter (\<lambda>c. \<not> (isWhiteSpace c \<or> c = CHR ''-'' \<or> c = CHR ''('' \<or> c = CHR '')'')) s"

fun showNat :: "nat \<Rightarrow> string" where
  "showNat n = (if n < 10 then [char_of (48 + n)] else showNat (n div 10) @ [char_of (48 + n mod 10)])"

declare showNat.simps [simp del]

section \<open>Regular expressions\<close>

text \<open>
  The patterns of the source are regular apart from one back reference, which is
  written out as a function further down. A pattern is matched against a whole string
  (the source anchors each with \<open>^\<close> and \<open>$\<close>) by taking derivatives.
\<close>

datatype rx = Nul | Eps | Chr "char \<Rightarrow> bool" | Alt rx rx | Seq rx rx | Star rx

fun nullable :: "rx \<Rightarrow> bool" where
  "nullable Nul = False"
| "nullable Eps = True"
| "nullable (Chr p) = False"
| "nullable (Alt r s) = (nullable r \<or> nullable s)"
| "nullable (Seq r s) = (nullable r \<and> nullable s)"
| "nullable (Star r) = True"

fun rseq :: "rx \<Rightarrow> rx \<Rightarrow> rx" where
  "rseq Nul s = Nul"
| "rseq r Nul = Nul"
| "rseq Eps s = s"
| "rseq r s = Seq r s"

fun ralt :: "rx \<Rightarrow> rx \<Rightarrow> rx" where
  "ralt Nul s = s"
| "ralt r Nul = r"
| "ralt r s = Alt r s"

fun deriv :: "char \<Rightarrow> rx \<Rightarrow> rx" where
  "deriv c Nul = Nul"
| "deriv c Eps = Nul"
| "deriv c (Chr p) = (if p c then Eps else Nul)"
| "deriv c (Alt r s) = ralt (deriv c r) (deriv c s)"
| "deriv c (Seq r s) =
     (if nullable r then ralt (rseq (deriv c r) s) (deriv c s) else rseq (deriv c r) s)"
| "deriv c (Star r) = rseq (deriv c r) (Star r)"

definition test :: "rx \<Rightarrow> string \<Rightarrow> bool" where
  \<comment> \<open>\<open>/^r$/.test(s)\<close>\<close>
  "test r s = nullable (foldl (\<lambda>r c. deriv c r) r s)"

definition Lit :: "char \<Rightarrow> rx" where
  "Lit c = Chr (\<lambda>x. x = c)"

definition Plus :: "rx \<Rightarrow> rx" where
  "Plus r = Seq r (Star r)"

definition Opt :: "rx \<Rightarrow> rx" where
  "Opt r = Alt Eps r"

primrec Times :: "nat \<Rightarrow> rx \<Rightarrow> rx" where
  \<comment> \<open>\<open>r{n}\<close>\<close>
  "Times 0 r = Eps"
| "Times (Suc n) r = Seq r (Times n r)"

primrec UpTo :: "nat \<Rightarrow> rx \<Rightarrow> rx" where
  \<comment> \<open>\<open>r{0,n}\<close>\<close>
  "UpTo 0 r = Eps"
| "UpTo (Suc n) r = Opt (Seq r (UpTo n r))"

definition Between :: "nat \<Rightarrow> nat \<Rightarrow> rx \<Rightarrow> rx" where
  \<comment> \<open>\<open>r{m,n}\<close>\<close>
  "Between m n r = Seq (Times m r) (UpTo (n - m) r)"

definition Digit :: rx where
  \<comment> \<open>\<open>\d\<close>\<close>
  "Digit = Chr isDigit"

definition noSpaceAt :: "char \<Rightarrow> bool" where
  \<comment> \<open>\<open>[^\s@]\<close>\<close>
  "noSpaceAt c = (\<not> isWhiteSpace c \<and> c \<noteq> CHR ''@'')"

definition emailPattern :: rx where
  \<comment> \<open>\<open>/^[^\s@]+@[^\s@]+\.[^\s@]+$/\<close>\<close>
  "emailPattern =
     Seq (Plus (Chr noSpaceAt)) (Seq (Lit CHR ''@'')
       (Seq (Plus (Chr noSpaceAt)) (Seq (Lit CHR ''.'') (Plus (Chr noSpaceAt)))))"

definition digit19 :: "char \<Rightarrow> bool" where
  \<comment> \<open>\<open>[1-9]\<close>\<close>
  "digit19 c = (49 \<le> (of_char c :: nat) \<and> (of_char c :: nat) \<le> 57)"

definition phonePattern :: rx where
  \<comment> \<open>\<open>/^[\+]?[1-9][\d]{0,15}$/\<close>\<close>
  "phonePattern = Seq (Opt (Lit CHR ''+'')) (Seq (Chr digit19) (Between 0 15 Digit))"

definition datePattern :: rx where
  \<comment> \<open>\<open>/^\d{4}-\d{2}-\d{2}$|^\d{2}\/\d{2}\/\d{4}$|^\d{2}-\d{2}-\d{4}$/\<close>\<close>
  "datePattern =
     Alt (Seq (Times 4 Digit) (Seq (Lit CHR ''-'') (Seq (Times 2 Digit) (Seq (Lit CHR ''-'') (Times 2 Digit)))))
    (Alt (Seq (Times 2 Digit) (Seq (Lit CHR ''/'') (Seq (Times 2 Digit) (Seq (Lit CHR ''/'') (Times 4 Digit)))))
         (Seq (Times 2 Digit) (Seq (Lit CHR ''-'') (Seq (Times 2 Digit) (Seq (Lit CHR ''-'') (Times 4 Digit))))))"

definition piiPhonePattern :: rx where
  \<comment> \<open>\<open>/^[\+]?[1-9][\d]{9,14}$/\<close>\<close>
  "piiPhonePattern = Seq (Opt (Lit CHR ''+'')) (Seq (Chr digit19) (Between 9 14 Digit))"

definition ssnPattern :: rx where
  \<comment> \<open>\<open>/^\d{3}-\d{2}-\d{4}$/\<close>\<close>
  "ssnPattern = Seq (Times 3 Digit) (Seq (Lit CHR ''-'') (Seq (Times 2 Digit) (Seq (Lit CHR ''-'') (Times 4 Digit))))"

definition nineDigits :: rx where
  \<comment> \<open>\<open>/^\d{9}$/\<close>\<close>
  "nineDigits = Times 9 Digit"

definition sepOpt :: rx where
  \<comment> \<open>\<open>[\s\-]?\<close>\<close>
  "sepOpt = Opt (Chr (\<lambda>c. isWhiteSpace c \<or> c = CHR ''-''))"

definition cardPattern :: rx where
  \<comment> \<open>\<open>/^\d{4}[\s\-]?\d{4}[\s\-]?\d{4}[\s\-]?\d{4}$/\<close>\<close>
  "cardPattern =
     Seq (Times 4 Digit) (Seq sepOpt (Seq (Times 4 Digit) (Seq sepOpt
       (Seq (Times 4 Digit) (Seq sepOpt (Times 4 Digit))))))"

definition repeatedChar :: "string \<Rightarrow> bool" where
  \<comment> \<open>\<open>/^(.)\1+$/.test(s)\<close>: one character other than a line terminator, two or more times\<close>
  "repeatedChar s =
     (case s of [] \<Rightarrow> False
      | c # cs \<Rightarrow> \<not> isLineTerminator c \<and> cs \<noteq> [] \<and> list_all (\<lambda>x. x = c) cs)"

definition sequentialStart :: "string \<Rightarrow> bool" where
  \<comment> \<open>\<open>/^(0123456789|1234567890|abcdefghij)/.test(s)\<close>: no anchor at the end\<close>
  "sequentialStart s =
     (startsWith s ''0123456789'' \<or> startsWith s ''1234567890'' \<or> startsWith s ''abcdefghij'')"

section \<open>The dataset\<close>

text \<open>
  \<open>CSVData\<close> of the source. A cell is declared \<open>string | number\<close>; the analyzers also
  test it against \<open>null\<close> and \<open>undefined\<close>, and reading a row beyond its end gives
  \<open>undefined\<close>, so a cell has the four forms below.
\<close>

datatype cell = Str string | Num jsnum | Null | Undefined

record CSVData =
  headers :: "string list"
  rows :: "cell list list"
  filename :: string

definition cellAt :: "cell list \<Rightarrow> nat \<Rightarrow> cell" where
  \<comment> \<open>\<open>row[i]\<close>\<close>
  "cellAt row i = (if i < length row then row ! i else Undefined)"

definition asciiCell :: "cell \<Rightarrow> bool" where
  "asciiCell v = (case v of Str s \<Rightarrow> isAscii s | _ \<Rightarrow> True)"

definition asciiData :: "CSVData \<Rightarrow> bool" where
  \<comment> \<open>every header and every string cell is ASCII text\<close>
  "asciiData d = (list_all isAscii (headers d) \<and> list_all (list_all asciiCell) (rows d))"

definition columnData :: "CSVData \<Rightarrow> nat \<Rightarrow> cell list" where
  \<comment> \<open>\<open>data.rows.map(row => row[colIndex])\<close>\<close>
  "columnData d colIndex = map (\<lambda>row. cellAt row colIndex) (rows d)"

text \<open>
  What the host provides and the source does not fix: the text of a number that is not
  an integer below \<open>2^53\<close> in size (an integer below that bound is printed with all
  its digits; a greater one with the shortest digits that identify the double, and a
  fraction likewise), the parsing of a date (a time value, or \<open>NaN\<close>), the clock, and
  the year of a time value in the local time zone.
\<close>

record env =
  numFmt :: "rat \<Rightarrow> string"
  dateParse :: "string \<Rightarrow> jsnum"
  now :: jsnum
  fullYear :: "rat \<Rightarrow> int"

definition numToString :: "env \<Rightarrow> jsnum \<Rightarrow> string" where
  "numToString E x =
     (case x of NaN \<Rightarrow> ''NaN'' | PInf \<Rightarrow> ''Infinity'' | NInf \<Rightarrow> ''-Infinity''
      | Fin a \<Rightarrow>
          if of_int \<lfloor>a\<rfloor> = a \<and> \<bar>a\<bar> < 2 ^ 53
          then (if a < 0 then ''-'' @ showNat (nat \<lfloor>- a\<rfloor>) else showNat (nat \<lfloor>a\<rfloor>))
          else numFmt E a)"

definition toString :: "env \<Rightarrow> cell \<Rightarrow> string" where
  \<comment> \<open>\<open>String(val)\<close>, and \<open>${val}\<close> in a template\<close>
  "toString E val =
     (case val of Str s \<Rightarrow> s | Num x \<Rightarrow> numToString E x | Null \<Rightarrow> ''null''
      | Undefined \<Rightarrow> ''undefined'')"

subsection \<open>\<open>Number(val)\<close>\<close>

definition digitVal :: "char \<Rightarrow> nat" where
  "digitVal c = of_char c - 48"

definition decimalVal :: "string \<Rightarrow> nat" where
  "decimalVal ds = foldl (\<lambda>a c. 10 * a + digitVal c) 0 ds"

definition hexDigitVal :: "char \<Rightarrow> nat option" where
  "hexDigitVal c =
     (let n = (of_char c :: nat)
      in if 48 \<le> n \<and> n \<le> 57 then Some (n - 48)
         else if 97 \<le> n \<and> n \<le> 102 then Some (n - 87)
         else if 65 \<le> n \<and> n \<le> 70 then Some (n - 55)
         else None)"

definition radixVal :: "nat \<Rightarrow> string \<Rightarrow> nat option" where
  "radixVal b ds =
     (if ds \<noteq> [] \<and> list_all (\<lambda>c. case hexDigitVal c of Some v \<Rightarrow> v < b | None \<Rightarrow> False) ds
      then Some (foldl (\<lambda>a c. case hexDigitVal c of Some v \<Rightarrow> b * a + v | None \<Rightarrow> a) 0 ds)
      else None)"

definition nonDecimal :: "string \<Rightarrow> nat option" where
  \<comment> \<open>\<open>0x\<close>, \<open>0o\<close> and \<open>0b\<close> literals; they take no sign\<close>
  "nonDecimal t =
     (case t of
        z # x # ds \<Rightarrow>
          if z = CHR ''0'' then
            (if x = CHR ''x'' \<or> x = CHR ''X'' then radixVal 16 ds
             else if x = CHR ''o'' \<or> x = CHR ''O'' then radixVal 8 ds
             else if x = CHR ''b'' \<or> x = CHR ''B'' then radixVal 2 ds
             else None)
          else None
      | _ \<Rightarrow> None)"

definition digitsInt :: "string \<Rightarrow> int option" where
  "digitsInt ds = (if ds \<noteq> [] \<and> list_all isDigit ds then Some (int (decimalVal ds)) else None)"

definition signedInteger :: "string \<Rightarrow> int option" where
  "signedInteger r =
     (case r of [] \<Rightarrow> None
      | c # ds \<Rightarrow>
          if c = CHR ''+'' then digitsInt ds
          else if c = CHR ''-'' then map_option uminus (digitsInt ds)
          else digitsInt r)"

definition exponentPart :: "string \<Rightarrow> int option" where
  \<comment> \<open>what follows the digits: nothing, or \<open>e\<close> and a signed integer\<close>
  "exponentPart r =
     (case r of [] \<Rightarrow> Some 0
      | c # r' \<Rightarrow> if c = CHR ''e'' \<or> c = CHR ''E'' then signedInteger r' else None)"

definition unsignedDecimal :: "string \<Rightarrow> jsnum" where
  "unsignedDecimal u =
     (if u = ''Infinity'' then PInf
      else
        let ip = takeWhile isDigit u;
            r1 = dropWhile isDigit u;
            fp = (case r1 of [] \<Rightarrow> [] | c # r \<Rightarrow> if c = CHR ''.'' then takeWhile isDigit r else []);
            r2 = (case r1 of [] \<Rightarrow> [] | c # r \<Rightarrow> if c = CHR ''.'' then dropWhile isDigit r else r1)
        in if ip = [] \<and> fp = [] then NaN
           else case exponentPart r2 of
                  None \<Rightarrow> NaN
                | Some ex \<Rightarrow>
                    dbl ((of_nat (decimalVal ip) + of_nat (decimalVal fp) / 10 ^ length fp)
                         * 10 powi ex))"

definition strToNum :: "string \<Rightarrow> jsnum" where
  \<comment> \<open>the numeric value of a string: white space around it is dropped, the empty string is 0\<close>
  "strToNum s =
     (let t = trim s
      in case t of [] \<Rightarrow> Fin 0
         | c # u \<Rightarrow>
            (case nonDecimal t of
               Some n \<Rightarrow> dbl (of_nat n)
             | None \<Rightarrow>
                 if c = CHR ''+'' then unsignedDecimal u
                 else if c = CHR ''-'' then jneg (unsignedDecimal u)
                 else unsignedDecimal t))"

definition Number :: "cell \<Rightarrow> jsnum" where
  "Number val = (case val of Str s \<Rightarrow> strToNum s | Num x \<Rightarrow> x | Null \<Rightarrow> Fin 0 | Undefined \<Rightarrow> NaN)"

definition isNumber :: "cell \<Rightarrow> bool" where
  \<comment> \<open>\<open>typeof val === 'number'\<close>\<close>
  "isNumber val = (case val of Num x \<Rightarrow> True | _ \<Rightarrow> False)"

definition truthy :: "cell \<Rightarrow> bool" where
  "truthy val =
     (case val of Str s \<Rightarrow> s \<noteq> [] | Num x \<Rightarrow> x \<noteq> Fin 0 \<and> x \<noteq> NaN | Null \<Rightarrow> False
      | Undefined \<Rightarrow> False)"

subsection \<open>\<open>JSON.stringify(row)\<close>\<close>

text \<open>
  The text that \<open>JSON.stringify\<close> gives for a row is used as a key only. It is modelled
  by the sequence of JSON values it denotes, which determines the text and is determined
  by it: \<open>undefined\<close>, \<open>NaN\<close> and the infinities are written \<open>null\<close>.
\<close>

datatype json = JString string | JNumber rat | JNull

definition jsonOf :: "cell \<Rightarrow> json" where
  "jsonOf val =
     (case val of Str s \<Rightarrow> JString s
      | Num x \<Rightarrow> (case x of Fin a \<Rightarrow> JNumber a | _ \<Rightarrow> JNull)
      | Null \<Rightarrow> JNull | Undefined \<Rightarrow> JNull)"

definition JSON_stringify :: "cell list \<Rightarrow> json list" where
  "JSON_stringify row = map jsonOf row"

subsection \<open>Objects keyed by a header\<close>

text \<open>
  The per-column tables are plain objects. Assigning to an existing key replaces its
  value; assigning a number or a string to the key \<open>__proto__\<close> stores nothing.
\<close>

type_synonym 'v obj = "(string \<times> 'v) list"

fun put :: "'v obj \<Rightarrow> string \<Rightarrow> 'v \<Rightarrow> 'v obj" where
  "put [] k v = [(k, v)]"
| "put ((k', v') # m) k v = (if k' = k then (k', v) # m else (k', v') # put m k v)"

definition obj_set :: "'v obj \<Rightarrow> string \<Rightarrow> 'v \<Rightarrow> 'v obj" where
  \<comment> \<open>\<open>m[k] = v\<close>\<close>
  "obj_set m k v = (if k = ''__proto__'' then m else put m k v)"

definition obj_get :: "'v obj \<Rightarrow> string \<Rightarrow> 'v option" where
  \<comment> \<open>\<open>m[k]\<close>, for a key that was assigned before; \<open>None\<close> is a value that equals no string\<close>
  "obj_get m k = map_of m k"

definition Object_values :: "'v obj \<Rightarrow> 'v list" where
  "Object_values m = map snd m"

section \<open>The quality analysis\<close>

datatype issue_value = CellValue cell | RowValue "cell list"

record DetailedIssue =
  type :: string
  column :: string
  rowIndex :: nat
  val :: issue_value
  description :: string
  severity :: string
  dimension :: string
  recommendation :: string

record QualityReport =
  totalRows :: nat
  totalColumns :: nat
  overallScore :: jsnum
  missingValuesScore :: jsnum
  duplicatesScore :: jsnum
  invalidFormatScore :: jsnum
  valueRangeScore :: jsnum
  inconsistentValuesScore :: jsnum
  unusualPatternsScore :: jsnum
  sensitiveDataScore :: jsnum
  missingValues :: "nat obj"
  duplicateRows :: nat
  dataTypes :: "string obj"
  formatIssues :: "nat obj"
  rangeIssues :: "nat obj"
  inconsistencyIssues :: "nat obj"
  unusualPatterns :: "nat obj"
  sensitiveDataDetected :: "string list obj"

definition nonEmpty :: "cell \<Rightarrow> bool" where
  \<comment> \<open>\<open>val !== '' && val !== null && val !== undefined\<close>\<close>
  "nonEmpty v = (v \<noteq> Str [] \<and> v \<noteq> Null \<and> v \<noteq> Undefined)"

subsection \<open>1. Missing values\<close>

definition isMissing :: "cell \<Rightarrow> bool" where
  "isMissing v =
     (v = Str [] \<or> v = Null \<or> v = Undefined \<or> v = Str ''null'' \<or> v = Str ''NULL''
      \<or> v = Str ''N/A'' \<or> v = Str ''n/a'')"

definition missingIssue :: "string \<Rightarrow> nat \<Rightarrow> cell \<Rightarrow> DetailedIssue" where
  \<open>missingIssue header i v =
     \<lparr>type = ''missing'', column = header, rowIndex = i, val = CellValue v,
      description = ''Missing value in "'' @ header @ ''" - empty or null field'',
      severity = ''medium'', dimension = ''Missing Values'',
      recommendation = ''Fill with appropriate default value or remove row if critical''\<rparr>\<close>

text \<open>
  Each column analyzer walks the cells of a column with their row index and pushes at most
  one issue for a cell: the issues of a column are collected with \<open>List.map_filter\<close>.
\<close>

definition missingColumn :: "string \<Rightarrow> cell list \<Rightarrow> DetailedIssue list" where
  "missingColumn header col =
     List.map_filter (\<lambda>(i, v). if isMissing v then Some (missingIssue header i v) else None)
                     (enumerate 0 col)"

definition missingPass :: "CSVData \<Rightarrow> DetailedIssue list \<times> nat obj" where
  "missingPass d =
     foldl (\<lambda>(issues, missingValues) (colIndex, header).
              let found = missingColumn header (columnData d colIndex)
              in (issues @ found, obj_set missingValues header (length found)))
           ([], []) (enumerate 0 (headers d))"

subsection \<open>2. Duplicates\<close>

definition duplicateIssue :: "nat \<Rightarrow> nat \<Rightarrow> cell list \<Rightarrow> DetailedIssue" where
  \<open>duplicateIssue index orig row =
     \<lparr>type = ''duplicate'', column = ''All columns'', rowIndex = index, val = RowValue row,
      description = ''Duplicate row #'' @ showNat (index + 1) @ '' (identical to row #''
                    @ showNat (orig + 1) @ '')'',
      severity = ''high'', dimension = ''Duplicates'',
      recommendation = ''Remove duplicate row to maintain data integrity''\<rparr>\<close>

fun duplicateScan ::
  "(json list \<rightharpoonup> nat) \<Rightarrow> nat \<Rightarrow> cell list list \<Rightarrow> (nat \<times> nat) list" where
  \<comment> \<open>the loop over the rows: \<open>seenRows\<close>, the index of the row, the rows to come; it
     gives each duplicate's index with the index kept in \<open>seenRows\<close> for its key\<close>
  "duplicateScan seenRows index [] = []"
| "duplicateScan seenRows index (row # rest) =
     (let key = JSON_stringify row
      in case seenRows key of
           Some orig \<Rightarrow> (index, orig) # duplicateScan seenRows (index + 1) rest
         | None \<Rightarrow> duplicateScan (seenRows(key \<mapsto> index)) (index + 1) rest)"

definition duplicateRowIndices :: "CSVData \<Rightarrow> nat list" where
  "duplicateRowIndices d = map fst (duplicateScan Map.empty 0 (rows d))"

definition duplicatePass :: "CSVData \<Rightarrow> DetailedIssue list" where
  "duplicatePass d =
     map (\<lambda>(index, orig). duplicateIssue index orig (rows d ! index))
         (duplicateScan Map.empty 0 (rows d))"

subsection \<open>3. Invalid format, with the type of a column\<close>

definition isNumericValue :: "cell \<Rightarrow> bool" where
  \<comment> \<open>\<open>typeof val === 'number' || (!isNaN(Number(val)) && val !== '')\<close>\<close>
  "isNumericValue v = (isNumber v \<or> (\<not> isNaN (Number v) \<and> v \<noteq> Str []))"

definition inferColumnType :: "string \<Rightarrow> cell list \<Rightarrow> string" where
  "inferColumnType header col =
     (let numericValues = filter isNumericValue col
      in if jgt (num (length numericValues)) (jmul (num (length col)) (lit 0.7)) then ''numeric''
         else if includes_str (toLowerCase header) ''email'' then ''email''
         else if includes_str (toLowerCase header) ''phone''
                 \<or> includes_str (toLowerCase header) ''mobile'' then ''phone''
         else if includes_str (toLowerCase header) ''date''
                 \<or> includes_str (toLowerCase header) ''dob'' then ''date''
         else ''text'')"

definition formatCheck :: "env \<Rightarrow> string \<Rightarrow> cell \<Rightarrow> string option" where
  \<comment> \<open>the \<open>switch\<close> on the column type: the error message when the value is invalid\<close>
  \<open>formatCheck E columnType v =
     (if columnType = ''email'' then
        (if \<not> test emailPattern (toString E v)
         then Some (''Invalid email format: "'' @ toString E v @ ''" - missing @ or domain'')
         else None)
      else if columnType = ''phone'' then
        (let cleanPhone = stripPhone (toString E v)
         in if \<not> test phonePattern cleanPhone \<or> length cleanPhone < 10 \<or> length cleanPhone > 15
            then Some (''Invalid phone format: "'' @ toString E v @ ''" - should be 10-15 digits'')
            else None)
      else if columnType = ''date'' then
        (if \<not> test datePattern (toString E v) \<and> isNaN (dateParse E (toString E v))
         then Some (''Invalid date format: "'' @ toString E v @ ''" - use YYYY-MM-DD or MM/DD/YYYY'')
         else None)
      else if columnType = ''numeric'' then
        (if isNaN (Number v)
         then Some (''Non-numeric value in numeric column: "'' @ toString E v @ ''"'')
         else None)
      else None)\<close>

definition formatIssue :: "string \<Rightarrow> nat \<Rightarrow> cell \<Rightarrow> string \<Rightarrow> DetailedIssue" where
  "formatIssue header i v errorMsg =
     \<lparr>type = ''invalid_format'', column = header, rowIndex = i, val = CellValue v,
      description = errorMsg, severity = ''high'', dimension = ''Invalid Format'',
      recommendation = ''Correct format or standardize data entry rules''\<rparr>"

definition formatColumn :: "env \<Rightarrow> string \<Rightarrow> string \<Rightarrow> cell list \<Rightarrow> DetailedIssue list" where
  "formatColumn E header columnType col =
     List.map_filter (\<lambda>(i, v).
                        if nonEmpty v
                        then map_option (formatIssue header i v) (formatCheck E columnType v)
                        else None)
                     (enumerate 0 col)"

definition formatPass :: "env \<Rightarrow> CSVData \<Rightarrow> DetailedIssue list \<times> string obj \<times> nat obj" where
  "formatPass E d =
     foldl (\<lambda>(issues, dataTypes, formatIssues) (colIndex, header).
              let col = columnData d colIndex;
                  columnType = inferColumnType header col;
                  found = formatColumn E header columnType col
              in (issues @ found, obj_set dataTypes header columnType,
                  obj_set formatIssues header (length found)))
           ([], [], []) (enumerate 0 (headers d))"

subsection \<open>4. Value range\<close>

definition yearBefore1900 :: "env \<Rightarrow> jsnum \<Rightarrow> bool" where
  \<comment> \<open>\<open>date.getFullYear() < 1900\<close>, for a valid date\<close>
  "yearBefore1900 E t = (case t of Fin a \<Rightarrow> fullYear E a < 1900 | _ \<Rightarrow> False)"

definition rangeCheck :: "env \<Rightarrow> string \<Rightarrow> cell \<Rightarrow> string option" where
  \<comment> \<open>four tests in a row, each of which may set the flag and replace the message\<close>
  \<open>rangeCheck E header v =
     (let h = toLowerCase header;
          m1 = (if includes_str h ''age'' then
                  (let age = Number v
                   in if \<not> isNaN age \<and> (jlt age (Fin 0) \<or> jgt age (Fin 150))
                      then Some (''Unrealistic age: '' @ numToString E age @ '' - should be between 0-150'')
                      else None)
                else None);
          m2 = (if includes_str h ''salary'' \<or> includes_str h ''income'' then
                  (let salary = Number v
                   in if \<not> isNaN salary \<and> jlt salary (Fin 0)
                      then Some (''Negative salary: '' @ numToString E salary @ '' - should be positive'')
                      else m1)
                else m1);
          m3 = (if includes_str h ''dob'' \<or> includes_str h ''birth'' then
                  (let date = dateParse E (toString E v)
                   in if \<not> isNaN date then
                        (let m = (if jgt date (now E)
                                  then Some (''Future birth date: '' @ toString E v @ '' - cannot be in the future'')
                                  else m2)
                         in if yearBefore1900 E date
                            then Some (''Very old birth date: '' @ toString E v @ '' - seems unrealistic'')
                            else m)
                      else m2)
                else m2);
          m4 = (if includes_str h ''phone'' then
                  (let cleanPhone = stripPhone (toString E v)
                   in if length cleanPhone < 10 \<or> length cleanPhone > 15
                      then Some (''Phone number length issue: "'' @ toString E v @ ''" - should be 10-15 digits'')
                      else m3)
                else m3)
      in m4)\<close>

definition rangeIssue :: "string \<Rightarrow> nat \<Rightarrow> cell \<Rightarrow> string \<Rightarrow> DetailedIssue" where
  "rangeIssue header i v errorMsg =
     \<lparr>type = ''value_range'', column = header, rowIndex = i, val = CellValue v,
      description = errorMsg, severity = ''high'', dimension = ''Value Range'',
      recommendation = ''Verify data accuracy and correct unrealistic values''\<rparr>"

definition rangeColumn :: "env \<Rightarrow> string \<Rightarrow> cell list \<Rightarrow> DetailedIssue list" where
  "rangeColumn E header col =
     List.map_filter (\<lambda>(i, v).
                        if nonEmpty v
                        then map_option (rangeIssue header i v) (rangeCheck E header v)
                        else None)
                     (enumerate 0 col)"

definition rangePass :: "env \<Rightarrow> CSVData \<Rightarrow> DetailedIssue list \<times> nat obj" where
  "rangePass E d =
     foldl (\<lambda>(issues, rangeIssues) (colIndex, header).
              let found = rangeColumn E header (columnData d colIndex)
              in (issues @ found, obj_set rangeIssues header (length found)))
           ([], []) (enumerate 0 (headers d))"

subsection \<open>5. Inconsistent values\<close>

definition textCheck :: "string \<Rightarrow> string option" where
  \<comment> \<open>two tests in a row on a string cell of a text column\<close>
  \<open>textCheck s =
     (let m1 = (if s \<noteq> toLowerCase s \<and> s \<noteq> toUpperCase s
                   \<and> s \<noteq> toUpperCase (charAt0 s) @ toLowerCase (slice1 s)
                then Some (''Inconsistent text case: "'' @ s @ ''" - mixed capitalization'')
                else None)
      in if s \<noteq> trim s \<or> includes_str s ''  ''
         then Some (''Extra whitespace in: "'' @ s @ ''" - needs trimming'')
         else m1)\<close>

definition textIssue :: "string \<Rightarrow> nat \<Rightarrow> cell \<Rightarrow> string \<Rightarrow> DetailedIssue" where
  "textIssue header i v errorMsg =
     \<lparr>type = ''inconsistent'', column = header, rowIndex = i, val = CellValue v,
      description = errorMsg, severity = ''low'', dimension = ''Inconsistent Values'',
      recommendation = ''Standardize text formatting and remove extra spaces''\<rparr>"

definition textColumn :: "string \<Rightarrow> cell list \<Rightarrow> DetailedIssue list" where
  "textColumn header col =
     List.map_filter (\<lambda>(i, v).
                        case v of
                          Str s \<Rightarrow>
                            if s \<noteq> [] then map_option (textIssue header i v) (textCheck s)
                            else None
                        | _ \<Rightarrow> None)
                     (enumerate 0 col)"

definition shipIssue :: "env \<Rightarrow> string \<Rightarrow> nat \<Rightarrow> cell \<Rightarrow> cell \<Rightarrow> DetailedIssue" where
  "shipIssue E header i shipDate orderDate =
     \<lparr>type = ''inconsistent'', column = header, rowIndex = i, val = CellValue shipDate,
      description = ''Ship date ('' @ toString E shipDate @ '') before order date (''
                    @ toString E orderDate @ '') - logically inconsistent'',
      severity = ''high'', dimension = ''Inconsistent Values'',
      recommendation = ''Verify and correct date sequence logic''\<rparr>"

fun findIndex :: "('a \<Rightarrow> bool) \<Rightarrow> 'a list \<Rightarrow> nat option" where
  \<comment> \<open>the first index whose element satisfies the test; \<open>None\<close> is the source's -1\<close>
  "findIndex P [] = None"
| "findIndex P (x # xs) = (if P x then Some 0 else map_option Suc (findIndex P xs))"

definition shipColumn :: "env \<Rightarrow> CSVData \<Rightarrow> string \<Rightarrow> cell list \<Rightarrow> DetailedIssue list" where
  "shipColumn E d header col =
     (if includes_str (toLowerCase header) ''ship''
         \<and> list_ex (\<lambda>h. includes_str (toLowerCase h) ''order'') (headers d)
      then
        (case findIndex (\<lambda>h. includes_str (toLowerCase h) ''order''
                              \<and> includes_str (toLowerCase h) ''date'') (headers d) of
           None \<Rightarrow> []
         | Some orderDateCol \<Rightarrow>
             List.map_filter
               (\<lambda>(i, shipDate).
                  let orderDate = cellAt (rows d ! i) orderDateCol
                  in if truthy shipDate \<and> truthy orderDate then
                       (let ship = dateParse E (toString E shipDate);
                            order = dateParse E (toString E orderDate)
                        in if \<not> isNaN ship \<and> \<not> isNaN order \<and> jlt ship order
                           then Some (shipIssue E header i shipDate orderDate)
                           else None)
                     else None)
               (enumerate 0 col))
      else [])"

definition inconsistentPass ::
  "env \<Rightarrow> CSVData \<Rightarrow> string obj \<Rightarrow> DetailedIssue list \<times> nat obj" where
  "inconsistentPass E d types =
     foldl (\<lambda>(issues, inconsistencyIssues) (colIndex, header).
              let col = columnData d colIndex;
                  found = (if obj_get types header = Some ''text'' then textColumn header col
                           else [])
                          @ shipColumn E d header col
              in (issues @ found, obj_set inconsistencyIssues header (length found)))
           ([], []) (enumerate 0 (headers d))"

subsection \<open>6. Unusual patterns\<close>

definition dummyPatterns :: "string list" where
  "dummyPatterns =
     [''test'', ''dummy'', ''sample'', ''example'', ''placeholder'', ''temp'', ''xxx'', ''yyy'', ''zzz'']"

definition unusualCheck :: "env \<Rightarrow> string \<Rightarrow> cell \<Rightarrow> string option" where
  \<open>unusualCheck E header v =
     (let strVal = toString E v;
          m1 = (if length strVal > 3 \<and> repeatedChar strVal
                then Some (''Suspicious repeated pattern: "'' @ strVal @ ''" - likely placeholder data'')
                else None);
          m2 = (if length strVal > 4 \<and> sequentialStart (toLowerCase strVal)
                then Some (''Sequential pattern detected: "'' @ strVal @ ''" - likely test data'')
                else m1);
          m3 = (if list_ex (\<lambda>pattern. includes_str (toLowerCase strVal) pattern) dummyPatterns
                then Some (''Dummy/test value detected: "'' @ strVal @ ''" - should be replaced with real data'')
                else m2)
      in if includes_str (toLowerCase header) ''email''
            \<and> (includes_str strVal ''test@'' \<or> includes_str strVal ''dummy@''
               \<or> includes_str strVal ''example@'' \<or> includes_str strVal ''@test.''
               \<or> includes_str strVal ''@dummy.'')
         then Some (''Test email detected: "'' @ strVal @ ''" - likely not a real email address'')
         else m3)\<close>

definition unusualIssue :: "string \<Rightarrow> nat \<Rightarrow> cell \<Rightarrow> string \<Rightarrow> DetailedIssue" where
  "unusualIssue header i v errorMsg =
     \<lparr>type = ''unusual_pattern'', column = header, rowIndex = i, val = CellValue v,
      description = errorMsg, severity = ''medium'', dimension = ''Unusual Patterns'',
      recommendation = ''Replace with authentic data or verify if legitimate''\<rparr>"

definition unusualColumn :: "env \<Rightarrow> string \<Rightarrow> cell list \<Rightarrow> DetailedIssue list" where
  "unusualColumn E header col =
     List.map_filter (\<lambda>(i, v).
                        if nonEmpty v
                        then map_option (unusualIssue header i v) (unusualCheck E header v)
                        else None)
                     (enumerate 0 col)"

definition unusualPass :: "env \<Rightarrow> CSVData \<Rightarrow> DetailedIssue list \<times> nat obj" where
  "unusualPass E d =
     foldl (\<lambda>(issues, unusualPatterns) (colIndex, header).
              let found = unusualColumn E header (columnData d colIndex)
              in (issues @ found, obj_set unusualPatterns header (length found)))
           ([], []) (enumerate 0 (headers d))"

subsection \<open>7. Sensitive data\<close>

definition piiIssue ::
  "string \<Rightarrow> nat \<Rightarrow> cell \<Rightarrow> string \<Rightarrow> string \<Rightarrow> DetailedIssue" where
  "piiIssue header i v msg advice =
     \<lparr>type = ''sensitive_data'', column = header, rowIndex = i, val = CellValue v,
      description = msg, severity = ''critical'', dimension = ''Sensitive Data (PII)'',
      recommendation = advice\<rparr>"

definition piiCell :: "env \<Rightarrow> string \<Rightarrow> nat \<Rightarrow> cell \<Rightarrow> (string \<times> DetailedIssue) list" where
  \<comment> \<open>the four detections on one cell, each with the name it adds to \<open>sensitiveTypes\<close>\<close>
  \<open>piiCell E header i v =
     (if nonEmpty v then
        (let strVal = toString E v
         in (if test emailPattern strVal
             then [(''Email'', piiIssue header i v
                      (''Email address detected: "'' @ strVal @ ''" - contains PII'')
                      ''Mask, encrypt, or remove email addresses for privacy compliance'')]
             else [])
          @ (if test piiPhonePattern (stripPhone strVal)
             then [(''Phone'', piiIssue header i v
                      (''Phone number detected: "'' @ strVal @ ''" - contains PII'')
                      ''Mask or encrypt phone numbers for privacy protection'')]
             else [])
          @ (if test ssnPattern strVal \<or> test nineDigits strVal
             then [(''SSN'', piiIssue header i v
                      (''Potential SSN detected: "'' @ strVal @ ''" - highly sensitive PII'')
                      ''Immediately encrypt or remove SSN data - high compliance risk'')]
             else [])
          @ (if test cardPattern strVal
             then [(''Credit Card'', piiIssue header i v
                      (''Potential credit card number: "'' @ strVal @ ''" - financial PII'')
                      ''Remove credit card data immediately - PCI compliance violation'')]
             else []))
      else [])\<close>

definition piiColumn :: "env \<Rightarrow> string \<Rightarrow> cell list \<Rightarrow> (string \<times> DetailedIssue) list" where
  "piiColumn E header col = concat (map (\<lambda>(i, v). piiCell E header i v) (enumerate 0 col))"

definition sensitiveTypesOf :: "(string \<times> DetailedIssue) list \<Rightarrow> string list" where
  \<comment> \<open>each name once, in the order of its first detection\<close>
  "sensitiveTypesOf found =
     foldl (\<lambda>sensitiveTypes (name, issue).
              if name \<in> set sensitiveTypes then sensitiveTypes else sensitiveTypes @ [name])
           [] found"

definition piiPass :: "env \<Rightarrow> CSVData \<Rightarrow> DetailedIssue list \<times> string list obj" where
  "piiPass E d =
     foldl (\<lambda>(issues, sensitiveDataDetected) (colIndex, header).
              let found = piiColumn E header (columnData d colIndex);
                  sensitiveTypes = sensitiveTypesOf found
              in (issues @ map snd found,
                  if length sensitiveTypes > 0
                  then obj_set sensitiveDataDetected header sensitiveTypes
                  else sensitiveDataDetected))
           ([], []) (enumerate 0 (headers d))"

subsection \<open>Scores\<close>

definition total :: "nat obj \<Rightarrow> jsnum" where
  \<comment> \<open>\<open>Object.values(m).reduce((sum, count) => sum + count, 0)\<close>: a sum of counters, exact\<close>
  "total m = num (sum_list (Object_values m))"

definition ratioScore :: "jsnum \<Rightarrow> jsnum \<Rightarrow> jsnum" where
  \<comment> \<open>\<open>Math.round(((whole - part) / whole) * 100)\<close>\<close>
  "ratioScore whole part = Math_round (jmul (jdiv (jsub whole part) whole) (Fin 100))"

definition penaltyScore :: "jsnum \<Rightarrow> jsnum \<Rightarrow> jsnum" where
  \<comment> \<open>\<open>Math.max(0, Math.round(100 - (count / rows) * 100))\<close>\<close>
  "penaltyScore count n =
     Math_max (Fin 0) (Math_round (jsub (Fin 100) (jmul (jdiv count n) (Fin 100))))"

definition weightedScore ::
  "jsnum \<Rightarrow> jsnum \<Rightarrow> jsnum \<Rightarrow> jsnum \<Rightarrow> jsnum \<Rightarrow> jsnum \<Rightarrow> jsnum \<Rightarrow> jsnum" where
  \<comment> \<open>the weighted average of the seven scores, summed from left to right\<close>
  "weightedScore missingS duplicatesS formatS rangeS inconsistentS unusualS sensitiveS =
     Math_round
       (jadd (jadd (jadd (jadd (jadd (jadd
          (jmul missingS (lit 0.20))
          (jmul duplicatesS (lit 0.15)))
          (jmul formatS (lit 0.15)))
          (jmul rangeS (lit 0.15)))
          (jmul inconsistentS (lit 0.10)))
          (jmul unusualS (lit 0.10)))
          (jmul sensitiveS (lit 0.15)))"

record Analysis =
  report :: QualityReport
  issues :: "DetailedIssue list"

definition analyzeData :: "env \<Rightarrow> CSVData \<Rightarrow> Analysis" where
  "analyzeData E d =
     (let (issues1, missingValues) = missingPass d;
          duplicateRowIndices = duplicateRowIndices d;
          issues2 = duplicatePass d;
          (issues3, dataTypes, formatIssues) = formatPass E d;
          (issues4, rangeIssues) = rangePass E d;
          (issues5, inconsistencyIssues) = inconsistentPass E d dataTypes;
          (issues6, unusualPatterns) = unusualPass E d;
          (issues7, sensitiveDataDetected) = piiPass E d;
          issues = issues1 @ issues2 @ issues3 @ issues4 @ issues5 @ issues6 @ issues7;
          nRows = num (length (rows d));
          totalCells = jmul nRows (num (length (headers d)));
          missingValuesScore = ratioScore totalCells (total missingValues);
          duplicatesScore = ratioScore nRows (num (length duplicateRowIndices));
          invalidFormatScore = penaltyScore (total formatIssues) nRows;
          valueRangeScore = penaltyScore (total rangeIssues) nRows;
          inconsistentValuesScore = penaltyScore (total inconsistencyIssues) nRows;
          unusualPatternsScore = penaltyScore (total unusualPatterns) nRows;
          totalSensitiveData = length (filter (\<lambda>i. type i = ''sensitive_data'') issues);
          sensitiveDataScore =
            (if totalSensitiveData = 0 then Fin 100
             else penaltyScore (num totalSensitiveData) nRows);
          overallScore =
            weightedScore missingValuesScore duplicatesScore invalidFormatScore valueRangeScore
              inconsistentValuesScore unusualPatternsScore sensitiveDataScore
      in \<lparr>report =
            \<lparr>totalRows = length (rows d), totalColumns = length (headers d),
             overallScore = overallScore, missingValuesScore = missingValuesScore,
             duplicatesScore = duplicatesScore, invalidFormatScore = invalidFormatScore,
             valueRangeScore = valueRangeScore,
             inconsistentValuesScore = inconsistentValuesScore,
             unusualPatternsScore = unusualPatternsScore,
             sensitiveDataScore = sensitiveDataScore, missingValues = missingValues,
             duplicateRows = length duplicateRowIndices, dataTypes = dataTypes,
             formatIssues = formatIssues, rangeIssues = rangeIssues,
             inconsistencyIssues = inconsistencyIssues, unusualPatterns = unusualPatterns,
             sensitiveDataDetected = sensitiveDataDetected\<rparr>,
          issues = issues\<rparr>)"

section \<open>The cleaning engine\<close>

text \<open>
  \<open>CleaningOperation\<close> and \<open>CleaningStep\<close> of the source; the fields of a step that only
  serve its display are left out. A field that may be absent is an option. The fields
  of an operation carry the prefix \<open>op\<close>, since \<open>type\<close> and \<open>description\<close> name the
  fields of an issue.
\<close>

record CleaningOperation =
  optype :: string
  opcolumn :: "string option"
  opvalue :: "cell option"
  opdescription :: string

record CleaningStep =
  operation :: CleaningOperation
  applied :: bool
  selectedRows :: "nat set option"

fun keepFirst :: "(json list \<rightharpoonup> bool) \<Rightarrow> cell list list \<Rightarrow> cell list list" where
  \<comment> \<open>the filter of \<open>remove_duplicates\<close>, with its map \<open>uniqueRows\<close>\<close>
  "keepFirst uniqueRows [] = []"
| "keepFirst uniqueRows (row # rest) =
     (let key = JSON_stringify row
      in case uniqueRows key of
           Some seen \<Rightarrow> keepFirst uniqueRows rest
         | None \<Rightarrow> row # keepFirst (uniqueRows(key \<mapsto> True)) rest)"

definition indexOf :: "string list \<Rightarrow> string \<Rightarrow> nat option" where
  \<comment> \<open>\<open>headers.indexOf(column)\<close>; \<open>None\<close> is the source's -1\<close>
  "indexOf hs h = findIndex (\<lambda>x. x = h) hs"

definition setAt :: "cell list \<Rightarrow> nat \<Rightarrow> cell \<Rightarrow> cell list" where
  \<comment> \<open>\<open>newRow[i] = v\<close> on a copy of the row: writing beyond the end extends the row, and
     the cells in between read as \<open>undefined\<close>\<close>
  "setAt row i v =
     (if i < length row then row[i := v]
      else row @ replicate (i - length row) Undefined @ [v])"

definition isBlank :: "cell \<Rightarrow> bool" where
  \<comment> \<open>\<open>v === '' || v === null || v === undefined\<close>\<close>
  "isBlank v = (v = Str [] \<or> v = Null \<or> v = Undefined)"

definition columnOf :: "CleaningOperation \<Rightarrow> string option" where
  \<comment> \<open>the column when \<open>if (operation.column)\<close> holds: present and not the empty string\<close>
  "columnOf op = (case opcolumn op of Some c \<Rightarrow> if c \<noteq> [] then Some c else None | None \<Rightarrow> None)"

definition shouldFill :: "CleaningStep \<Rightarrow> nat \<Rightarrow> bool" where
  \<comment> \<open>\<open>!step.selectedRows || step.selectedRows.size === 0 || step.selectedRows.has(rowIndex)\<close>\<close>
  "shouldFill step i =
     (case selectedRows step of None \<Rightarrow> True | Some S \<Rightarrow> S = {} \<or> i \<in> S)"

definition fillMissing :: "CleaningStep \<Rightarrow> CSVData \<Rightarrow> CSVData" where
  "fillMissing step d =
     (case (columnOf (operation step), opvalue (operation step)) of
        (Some c, Some v) \<Rightarrow>
          (case indexOf (headers d) c of
             Some colIndex \<Rightarrow>
               d\<lparr>rows := map (\<lambda>(rowIndex, row).
                                if shouldFill step rowIndex \<and> isBlank (cellAt row colIndex)
                                then setAt row colIndex v else row)
                             (enumerate 0 (rows d))\<rparr>
           | None \<Rightarrow> d)
      | _ \<Rightarrow> d)"

fun insertBy :: "jsnum \<Rightarrow> jsnum list \<Rightarrow> jsnum list" where
  "insertBy x [] = [x]"
| "insertBy x (y # ys) = (if jlt (jsub x y) (Fin 0) then x # y # ys else y # insertBy x ys)"

definition sortNumbers :: "jsnum list \<Rightarrow> jsnum list" where
  \<comment> \<open>\<open>.sort((a, b) => a - b)\<close>: ascending. A list that holds \<open>NaN\<close> has no order
     fixed by the language; this is the order of a stable insertion\<close>
  "sortNumbers xs = foldl (\<lambda>sorted x. insertBy x sorted) [] xs"

definition numAt :: "jsnum list \<Rightarrow> nat \<Rightarrow> jsnum" where
  \<comment> \<open>\<open>xs[i]\<close> in arithmetic: beyond the end it is \<open>undefined\<close>, which counts as \<open>NaN\<close>\<close>
  "numAt xs i = (if i < length xs then xs ! i else NaN)"

definition numbersOf :: "cell list \<Rightarrow> jsnum list" where
  \<comment> \<open>\<open>.filter(val => typeof val === 'number')\<close>\<close>
  "numbersOf col = concat (map (\<lambda>v. case v of Num x \<Rightarrow> [x] | _ \<Rightarrow> []) col)"

definition removeOutliers :: "CleaningStep \<Rightarrow> CSVData \<Rightarrow> CSVData" where
  "removeOutliers step d =
     (case columnOf (operation step) of
        Some c \<Rightarrow>
          (case indexOf (headers d) c of
             Some colIndex \<Rightarrow>
               (let numericValues = sortNumbers (numbersOf (columnData d colIndex));
                    n = length numericValues
                in if n > 0 then
                     (let q1 = numAt numericValues (toIndex (Math_floor (jmul (num n) (lit 0.25))));
                          q3 = numAt numericValues (toIndex (Math_floor (jmul (num n) (lit 0.75))));
                          iqr = jsub q3 q1;
                          lowerBound = jsub q1 (jmul (lit 1.5) iqr);
                          upperBound = jadd q3 (jmul (lit 1.5) iqr)
                      in d\<lparr>rows := filter (\<lambda>row.
                                          case cellAt row colIndex of
                                            Num x \<Rightarrow> jge x lowerBound \<and> jle x upperBound
                                          | _ \<Rightarrow> True)
                                        (rows d)\<rparr>)
                   else d)
           | None \<Rightarrow> d)
      | None \<Rightarrow> d)"

definition standardize :: "CleaningStep \<Rightarrow> CSVData \<Rightarrow> CSVData" where
  "standardize step d =
     (case columnOf (operation step) of
        Some c \<Rightarrow>
          (case indexOf (headers d) c of
             Some colIndex \<Rightarrow>
               d\<lparr>rows := map (\<lambda>row.
                                case cellAt row colIndex of
                                  Str s \<Rightarrow> setAt row colIndex
                                             (Str (collapseSpaces (toLowerCase (trim s))))
                                | _ \<Rightarrow> row)
                             (rows d)\<rparr>
           | None \<Rightarrow> d)
      | None \<Rightarrow> d)"

definition applyStep :: "CSVData \<Rightarrow> CleaningStep \<Rightarrow> CSVData" where
  \<comment> \<open>the body of the loop: the \<open>switch\<close> on the type of the operation\<close>
  "applyStep cleanedData step =
     (let t = optype (operation step)
      in if t = ''remove_duplicates'' then cleanedData\<lparr>rows := keepFirst Map.empty (rows cleanedData)\<rparr>
         else if t = ''fill_missing'' then fillMissing step cleanedData
         else if t = ''remove_outliers'' then removeOutliers step cleanedData
         else if t = ''standardize'' then standardize step cleanedData
         else cleanedData)"

definition applyAllSelectedSteps :: "CSVData \<Rightarrow> CleaningStep list \<Rightarrow> CSVData" where
  "applyAllSelectedSteps d cleaningSteps =
     (let appliedSteps = filter applied cleaningSteps;
          cleanedData = foldl applyStep d appliedSteps
      in cleanedData\<lparr>filename := ''cleaned_'' @ filename d\<rparr>)"

section \<open>Counting, and sample data\<close>

text \<open>A count used to state theorems, and small datasets and steps on which the theorems
  below are exercised.\<close>

definition sampleCities :: CSVData where
  "sampleCities =
     \<lparr>headers = [''id'', ''city''],
      rows = [[Str ''1'', Str ''''], [Str ''2'', Str ''''], [Str ''3'', Str ''N/A''],
              [Str ''1'', Str '''']],
      filename = ''cities.csv''\<rparr>"

definition sampleFill :: CleaningStep where
  "sampleFill =
     \<lparr>operation = \<lparr>optype = ''fill_missing'', opcolumn = Some ''city'',
                    opvalue = Some (Str ''Unknown''),
                    opdescription = ''Fill 1 selected missing values in city''\<rparr>,
      applied = True, selectedRows = Some {0}\<rparr>"

definition sampleDedup :: CleaningStep where
  "sampleDedup =
     \<lparr>operation = \<lparr>optype = ''remove_duplicates'', opcolumn = None, opvalue = None,
                    opdescription = ''Remove 1 duplicate rows''\<rparr>,
      applied = False, selectedRows = None\<rparr>"

definition sampleEnv :: env where
  \<comment> \<open>a host that parses no date; the samples hold strings only\<close>
  "sampleEnv = \<lparr>numFmt = (\<lambda>a. []), dateParse = (\<lambda>s. NaN), now = Fin 0, fullYear = (\<lambda>t. 1970)\<rparr>"

definition missingCells :: "CSVData \<Rightarrow> nat" where
  \<comment> \<open>the number of cells of the table, read column by column under the headers, that the
     test for a missing value accepts; the theorems on the missing-values score count with it\<close>
  "missingCells d =
     sum_list (map (\<lambda>c. length (filter isMissing (columnData d c))) [0..<length (headers d)])"

definition sampleSparse :: CSVData where
  \<comment> \<open>400 rows of one column, the last cell empty\<close>
  "sampleSparse =
     \<lparr>headers = [''note''], rows = replicate 399 [Str ''ok''] @ [[Str '''']],
      filename = ''sparse.csv''\<rparr>"

definition sampleNames :: CSVData where
  "sampleNames = \<lparr>headers = [''name''], rows = [[Str ''Hello''], [Str ''hello  world'']],
                  filename = ''names.csv''\<rparr>"

definition samplePhones :: CSVData where
  "samplePhones = \<lparr>headers = [''phone''],
                   rows = [[Str ''N/A''], [Str ''test''], [Str ''123-45-6789'']],
                   filename = ''phones.csv''\<rparr>"

definition sampleShort :: CSVData where
  "sampleShort = \<lparr>headers = [''id'', ''city''], rows = [[Str ''1'', Str ''Rome''], [Str ''2'']],
                  filename = ''short.csv''\<rparr>"

definition sampleLong :: CSVData where
  "sampleLong = \<lparr>headers = [''id'', ''city''],
                 rows = [[Str ''1'', Str ''Rome'', Str ''x''], [Str ''2'']],
                 filename = ''long.csv''\<rparr>"

definition sampleEmails :: CSVData where
  "sampleEmails = \<lparr>headers = [''email''], rows = [[Str ''abc''], [Str ''a@b.co''], [Str '''']],
                   filename = ''emails.csv''\<rparr>"

section \<open>Rounding to a double\<close>

lemma ilog2_bounds:
  assumes "0 < x"
  shows "2 powi ilog2 x \<le> x" and "x < 2 powi (ilog2 x + 1)"
proof -
  show "2 powi ilog2 x \<le> x"
  proof (cases "1 \<le> x")
    case True
    define n where "n = nat \<lfloor>x\<rfloor>"
    have n: "0 < n" using True by (simp add: n_def)
    have "(2::nat) ^ (floorlog 2 n - 1) \<le> n" using floorlog_bounds[of n 2] n by simp
    then have "(of_nat ((2::nat) ^ (floorlog 2 n - 1)) :: rat) \<le> of_nat n"
      using of_nat_le_iff by blast
    also have "(of_nat n :: rat) \<le> x" using True by (simp add: n_def)
    finally have "(2::rat) ^ (floorlog 2 n - 1) \<le> x" by simp
    moreover have "0 < floorlog 2 n" using n by (simp add: floorlog_def)
    ultimately show ?thesis using True
      by (simp add: ilog2_def n_def[symmetric] power_int_def nat_diff_distrib)
  next
    case False
    define n where "n = nat (\<lceil>1 / x\<rceil> - 1)"
    have x1: "1 < 1 / x" using False assms by simp
    then have c: "2 \<le> \<lceil>1 / x\<rceil>" by (simp add: le_ceiling_iff)
    then have n: "0 < n" by (simp add: n_def)
    have "n < 2 ^ floorlog 2 n" using floorlog_bounds[of n 2] n by simp
    then have "n + 1 \<le> 2 ^ floorlog 2 n" by simp
    then have "(of_nat (n + 1) :: rat) \<le> of_nat (2 ^ floorlog 2 n)"
      using of_nat_le_iff by blast
    moreover have "1 / x \<le> of_nat (n + 1)"
    proof -
      have "1 / x \<le> of_int \<lceil>1 / x\<rceil>" by (rule le_of_int_ceiling)
      also have "\<lceil>1 / x\<rceil> = int n + 1" using c unfolding n_def by linarith
      finally show ?thesis by simp
    qed
    ultimately have "1 / x \<le> 2 ^ floorlog 2 n" by simp
    then have "1 / 2 ^ floorlog 2 n \<le> x" using assms
      by (simp add: field_simps)
    moreover have "0 < floorlog 2 n" using n by (simp add: floorlog_def)
    ultimately show ?thesis using False
      by (simp add: ilog2_def n_def[symmetric] power_int_def field_simps)
  qed
  show "x < 2 powi (ilog2 x + 1)"
  proof (cases "1 \<le> x")
    case True
    define n where "n = nat \<lfloor>x\<rfloor>"
    have n: "0 < n" using True by (simp add: n_def)
    have "n < 2 ^ floorlog 2 n" using floorlog_bounds[of n 2] n by simp
    then have "n + 1 \<le> 2 ^ floorlog 2 n" by simp
    then have "(of_nat (n + 1) :: rat) \<le> of_nat (2 ^ floorlog 2 n)"
      using of_nat_le_iff by blast
    moreover have "x < of_nat (n + 1)" using True by (simp add: n_def) linarith
    ultimately have "x < 2 ^ floorlog 2 n" by simp
    then show ?thesis using True
      by (simp add: ilog2_def n_def[symmetric] power_int_def)
  next
    case False
    define n where "n = nat (\<lceil>1 / x\<rceil> - 1)"
    define k where "k = floorlog 2 n"
    have x1: "1 < 1 / x" using False assms by simp
    then have c: "2 \<le> \<lceil>1 / x\<rceil>" by (simp add: le_ceiling_iff)
    then have n: "0 < n" by (simp add: n_def)
    have k: "0 < k" using n by (simp add: k_def floorlog_def)
    have "(2::nat) ^ (k - 1) \<le> n" using floorlog_bounds[of n 2] n by (simp add: k_def)
    then have le: "(of_nat ((2::nat) ^ (k - 1)) :: rat) \<le> of_nat n"
      using of_nat_le_iff by blast
    have lt: "of_nat n < 1 / x"
    proof -
      have "of_int (\<lceil>1 / x\<rceil> - 1) < 1 / x" using ceiling_correct[of "1 / x"] by simp
      moreover have "\<lceil>1 / x\<rceil> - 1 = int n" using c unfolding n_def by linarith
      ultimately show ?thesis by simp
    qed
    have "(2::rat) ^ (k - 1) = of_nat ((2::nat) ^ (k - 1))" by simp
    also note le
    also note lt
    finally have "2 ^ (k - 1) < 1 / x" .
    then have "x < 1 / 2 ^ (k - 1)" using assms by (simp add: field_simps)
    moreover have "ilog2 x + 1 = - int (k - 1)" using False k
      by (simp add: ilog2_def n_def[symmetric] k_def[symmetric])
    moreover have "(2::rat) powi (- int (k - 1)) = 1 / 2 ^ (k - 1)"
      by (simp add: power_int_minus inverse_eq_divide)
    ultimately show ?thesis by simp
  qed
qed

lemma ilog2_mono:
  assumes "0 < x" "x \<le> y"
  shows "ilog2 x \<le> ilog2 y"
proof (rule ccontr)
  assume "\<not> ilog2 x \<le> ilog2 y"
  then have "ilog2 y + 1 \<le> ilog2 x" by simp
  then have "(2::rat) powi (ilog2 y + 1) \<le> 2 powi ilog2 x"
    by (intro power_int_increasing) auto
  also have "\<dots> \<le> x" using assms ilog2_bounds(1) by simp
  also have "\<dots> \<le> y" by fact
  also have "\<dots> < 2 powi (ilog2 y + 1)" using assms ilog2_bounds(2)[of y] by simp
  finally show False by simp
qed

lemma ilog2_less:
  assumes "0 < x" "x < 2 powi k"
  shows "ilog2 x < k"
proof (rule ccontr)
  assume "\<not> ilog2 x < k"
  then have "(2::rat) powi k \<le> 2 powi ilog2 x"
    by (intro power_int_increasing) auto
  also have "\<dots> \<le> x" using assms ilog2_bounds(1) by simp
  finally show False using assms by simp
qed

lemma rne_floor: "\<lfloor>y\<rfloor> \<le> rne y" "rne y \<le> \<lfloor>y\<rfloor> + 1"
  by (simp_all add: rne_def Let_def)

lemma rne_err: "\<bar>of_int (rne y) - y\<bar> \<le> 1 / 2"
proof -
  have "of_int \<lfloor>y\<rfloor> \<le> y" "y < of_int \<lfloor>y\<rfloor> + 1" by linarith+
  then show ?thesis by (auto simp: rne_def Let_def)
qed

lemma rne_of_int [simp]: "rne (of_int k) = k"
  by (simp add: rne_def)

lemma rne_mono:
  assumes "x \<le> y"
  shows "rne x \<le> rne y"
proof (cases "\<lfloor>x\<rfloor> < \<lfloor>y\<rfloor>")
  case True
  then show ?thesis using rne_floor(2)[of x] rne_floor(1)[of y] by linarith
next
  case False
  then have "\<lfloor>x\<rfloor> = \<lfloor>y\<rfloor>" using floor_mono[OF assms] by simp
  then show ?thesis using assms by (auto simp: rne_def Let_def)
qed

lemma ulp_pos: "0 < ulp a"
  by (simp add: ulp_def)

lemma rnd_err: "\<bar>rnd a - a\<bar> \<le> ulp a / 2"
proof -
  have "rnd a - a = (of_int (rne (a / ulp a)) - a / ulp a) * ulp a"
    using ulp_pos[of a] by (simp add: rnd_def left_diff_distrib)
  then have "\<bar>rnd a - a\<bar> = \<bar>of_int (rne (a / ulp a)) - a / ulp a\<bar> * ulp a"
    using ulp_pos[of a] by (simp add: abs_mult)
  also have "\<dots> \<le> 1 / 2 * ulp a"
    using rne_err[of "a / ulp a"] ulp_pos[of a] by (intro mult_right_mono) auto
  finally show ?thesis by simp
qed

lemma rnd_nonneg: "0 \<le> a \<Longrightarrow> 0 \<le> rnd a"
proof -
  assume "0 \<le> a"
  then have "0 \<le> a / ulp a" using ulp_pos[of a] by simp
  then have "rne 0 \<le> rne (a / ulp a)" by (rule rne_mono)
  then have "0 \<le> rne (a / ulp a)" using rne_of_int[of 0] by simp
  then show ?thesis using ulp_pos[of a] by (simp add: rnd_def)
qed

lemma rnd_le_pow:
  assumes "0 < a"
  shows "rnd a \<le> 2 powi (max (ilog2 a) (- 1022) + 1)"
proof -
  define e where "e = max (ilog2 a) (- 1022)"
  have u: "ulp a = 2 powi (e - 52)" by (simp add: ulp_def e_def)
  have "a < 2 powi (ilog2 a + 1)" using assms ilog2_bounds(2) by simp
  also have "\<dots> \<le> 2 powi (e + 1)" by (intro power_int_increasing) (auto simp: e_def)
  finally have "a / ulp a \<le> 2 powi (e + 1) / 2 powi (e - 52)"
    using ulp_pos[of a] by (simp add: u divide_right_mono)
  also have "\<dots> = 2 powi 53" by (simp add: power_int_diff[symmetric])
  also have "\<dots> = of_int (2 ^ 53)" by (simp add: power_int_def)
  finally have "rne (a / ulp a) \<le> rne (of_int (2 ^ 53))" by (rule rne_mono)
  then have "rne (a / ulp a) \<le> 2 ^ 53" by (simp only: rne_of_int)
  then have "(of_int (rne (a / ulp a)) :: rat) \<le> of_int (2 ^ 53)" using of_int_le_iff by blast
  then have "rnd a \<le> of_int (2 ^ 53) * ulp a"
    unfolding rnd_def using ulp_pos[of a] by (intro mult_right_mono) auto
  also have "of_int (2 ^ 53) = (2::rat) powi 53" by (simp add: power_int_def)
  also have "2 powi 53 * ulp a = 2 powi (53 + (e - 52))"
    unfolding u by (rule power_int_add[symmetric]) simp
  finally show ?thesis by (simp add: e_def add.commute)
qed

lemma rnd_ge_pow:
  assumes "0 < a" "- 1022 \<le> ilog2 a"
  shows "2 powi ilog2 a \<le> rnd a"
proof -
  define e where "e = ilog2 a"
  have u: "ulp a = 2 powi (e - 52)" using assms by (simp add: ulp_def e_def max_def)
  have "2 powi e \<le> a" using assms ilog2_bounds(1) by (simp add: e_def)
  then have "2 powi e / 2 powi (e - 52) \<le> a / ulp a"
    using ulp_pos[of a] by (simp add: u divide_right_mono)
  moreover have "(2::rat) powi e / 2 powi (e - 52) = 2 powi 52" by (simp add: power_int_diff[symmetric])
  moreover have "(2::rat) powi 52 = of_int (2 ^ 52)" by (simp add: power_int_def)
  ultimately have "rne (of_int (2 ^ 52)) \<le> rne (a / ulp a)" by (intro rne_mono) simp
  then have "2 ^ 52 \<le> rne (a / ulp a)" by (simp only: rne_of_int)
  then have "(of_int (2 ^ 52) :: rat) \<le> of_int (rne (a / ulp a))" using of_int_le_iff by blast
  then have "of_int (2 ^ 52) * ulp a \<le> rnd a"
    unfolding rnd_def using ulp_pos[of a] by (intro mult_right_mono) auto
  moreover have "of_int (2 ^ 52) = (2::rat) powi 52" by (simp add: power_int_def)
  moreover have "(2::rat) powi 52 * ulp a = 2 powi (52 + (e - 52))"
    unfolding u by (rule power_int_add[symmetric]) simp
  ultimately show ?thesis by (simp add: e_def)
qed

lemma rnd_mono:
  assumes "0 < a" "a \<le> b"
  shows "rnd a \<le> rnd b"
proof (cases "max (ilog2 a) (- 1022) = max (ilog2 b) (- 1022)")
  case True
  then have u: "ulp a = ulp b" by (simp add: ulp_def)
  have "a / ulp b \<le> b / ulp b" using assms ulp_pos[of b] by (simp add: divide_right_mono)
  then have "rne (a / ulp b) \<le> rne (b / ulp b)" by (rule rne_mono)
  then have "(of_int (rne (a / ulp b)) :: rat) \<le> of_int (rne (b / ulp b))"
    using of_int_le_iff by blast
  then show ?thesis unfolding rnd_def u using ulp_pos[of b] by (intro mult_right_mono) auto
next
  case False
  have m: "ilog2 a \<le> ilog2 b" using assms by (rule ilog2_mono)
  with False have lt: "max (ilog2 a) (- 1022) < ilog2 b" and b: "- 1022 \<le> ilog2 b"
    by (auto simp: max_def split: if_splits)
  have "rnd a \<le> 2 powi (max (ilog2 a) (- 1022) + 1)" using assms(1) by (rule rnd_le_pow)
  also have "\<dots> \<le> 2 powi ilog2 b" using lt by (intro power_int_increasing) auto
  also have "\<dots> \<le> rnd b" using assms b by (intro rnd_ge_pow) auto
  finally show ?thesis .
qed

lemma ilog2_zero [simp]: "ilog2 0 = 0"
  by (simp add: ilog2_def floorlog_def)

lemma rnd_no_overflow:
  assumes "0 < a" "a < 2 powi 1023"
  shows "ilog2 (rnd a) < 1024"
proof (cases "rnd a = 0")
  case True
  then show ?thesis by simp
next
  case False
  then have p: "0 < rnd a" using rnd_nonneg[of a] assms by simp
  have "ilog2 a < 1023" using assms by (rule ilog2_less)
  then have "max (ilog2 a) (- 1022) + 1 \<le> 1023" by simp
  then have "(2::rat) powi (max (ilog2 a) (- 1022) + 1) \<le> 2 powi 1023"
    by (intro power_int_increasing) auto
  then have "rnd a \<le> 2 powi 1023" using rnd_le_pow[OF assms(1)] by simp
  also have "\<dots> < 2 powi 1024" by (intro power_int_strict_increasing) auto
  finally show ?thesis using p by (intro ilog2_less)
qed

lemma dbl_pos:
  assumes "0 < x" "x < 2 powi 1023"
  shows "dbl x = Fin (rnd x)"
  using assms rnd_no_overflow[OF assms] by (simp add: dbl_def Let_def)

lemma dbl_zero [simp]: "dbl 0 = Fin 0"
  by (simp add: dbl_def)

lemma dbl_nonneg_Fin:
  assumes "0 \<le> x" "x < 2 powi 1023"
  obtains a where "dbl x = Fin a" "0 \<le> a"
proof (cases "x = 0")
  case True
  then show ?thesis using that by simp
next
  case False
  then have "0 < x" using assms by simp
  then show ?thesis using that dbl_pos[of x] rnd_nonneg[of x] assms by simp
qed

lemma dbl_mono:
  assumes "0 \<le> x" "x \<le> y" "y < 2 powi 1023" "dbl x = Fin a" "dbl y = Fin b"
  shows "a \<le> b"
proof (cases "x = 0")
  case True
  then have "a = 0" using assms(4) by simp
  moreover obtain b' where "dbl y = Fin b'" "0 \<le> b'"
    using dbl_nonneg_Fin[of y] assms by auto
  ultimately show ?thesis using assms(5) by simp
next
  case False
  then have x: "0 < x" using assms by simp
  then have y: "0 < y" using assms by simp
  have "x < 2 powi 1023" using assms by simp
  then have "a = rnd x" using dbl_pos[OF x] assms(4) by simp
  moreover have "b = rnd y" using dbl_pos[OF y assms(3)] assms(5) by simp
  ultimately show ?thesis using rnd_mono[OF x assms(2)] by simp
qed

lemma rnd_of_nat:
  assumes "0 < n" "n < 2 ^ 53"
  shows "rnd (of_nat n) = of_nat n"
proof -
  define a :: rat where "a = of_nat n"
  define e where "e = ilog2 a"
  have a1: "1 \<le> a" using assms(1) by (simp add: a_def)
  then have a0: "0 < a" by simp
  have "a < 2 powi (e + 1)" using ilog2_bounds(2)[OF a0] by (simp add: e_def)
  then have lt: "1 < (2::rat) powi (e + 1)" using a1 by simp
  have e0: "0 \<le> e"
  proof (rule ccontr)
    assume "\<not> 0 \<le> e"
    then have "e + 1 \<le> 0" by simp
    then have "(2::rat) powi (e + 1) \<le> 2 powi 0" by (intro power_int_increasing) auto
    then show False using lt by simp
  qed
  have "a < of_nat (2 ^ 53)" unfolding a_def using assms(2) of_nat_less_iff by blast
  then have "a < 2 powi 53" by (simp add: power_int_def)
  then have e53: "e < 53" unfolding e_def using a0 by (intro ilog2_less)
  define k where "k = nat (52 - e)"
  have u: "ulp a = 2 powi (e - 52)" using e0 by (simp add: ulp_def e_def max_def)
  have "e - 52 = - int k" using e53 by (simp add: k_def)
  then have u': "ulp a = 1 / 2 ^ k" by (simp add: u power_int_minus inverse_eq_divide)
  have "a / ulp a = a * 2 ^ k" by (simp add: u')
  also have "\<dots> = of_int (int n * 2 ^ k)" by (simp add: a_def)
  finally have q: "a / ulp a = of_int (int n * 2 ^ k)" .
  have "rne (a / ulp a) = int n * 2 ^ k" unfolding q by (rule rne_of_int)
  then have "rnd a = of_int (int n * 2 ^ k) * (1 / 2 ^ k)" by (simp add: rnd_def u')
  also have "\<dots> = a" by (simp add: a_def)
  finally show ?thesis by (simp add: a_def)
qed

lemma dbl_of_nat:
  assumes "n < 2 ^ 53"
  shows "dbl (of_nat n) = Fin (of_nat n)"
proof (cases "n = 0")
  case True
  then show ?thesis by simp
next
  case False
  then have n: "0 < n" by simp
  have "(of_nat n :: rat) < of_nat (2 ^ 53)" using assms of_nat_less_iff by blast
  also have "\<dots> = 2 powi 53" by (simp add: power_int_def)
  also have "\<dots> < 2 powi 1023" by (intro power_int_strict_increasing) auto
  finally have "dbl (of_nat n) = Fin (rnd (of_nat n))" using n by (intro dbl_pos) auto
  then show ?thesis using rnd_of_nat[OF n assms] by simp
qed

section \<open>The shape of the passes\<close>

lemma foldl_pass:
  "foldl (\<lambda>(a, m) x. (a @ f x, g m x)) (a0, m0) xs = (a0 @ concat (map f xs), foldl g m0 xs)"
  by (induction xs arbitrary: a0 m0) auto

lemma put_fresh: "k \<notin> fst ` set m \<Longrightarrow> put m k v = m @ [(k, v)]"
  by (induction m) auto

lemma foldl_obj_set_distinct:
  assumes "distinct (map snd xs)" and "''__proto__'' \<notin> snd ` set xs"
    and "fst ` set m0 \<inter> snd ` set xs = {}"
  shows "foldl (\<lambda>m x. obj_set m (snd x) (c x)) m0 xs = m0 @ map (\<lambda>x. (snd x, c x)) xs"
  using assms
proof (induction xs arbitrary: m0)
  case Nil
  then show ?case by simp
next
  case (Cons x xs)
  have fresh: "snd x \<notin> fst ` set m0" using Cons.prems(3) by auto
  have step: "obj_set m0 (snd x) (c x) = m0 @ [(snd x, c x)]"
    using Cons.prems(2) fresh by (auto simp: obj_set_def put_fresh)
  have "fst ` set (m0 @ [(snd x, c x)]) \<inter> snd ` set xs = {}"
    using Cons.prems(1,3) by (auto simp: image_iff)
  then have "foldl (\<lambda>m x. obj_set m (snd x) (c x)) (m0 @ [(snd x, c x)]) xs
              = (m0 @ [(snd x, c x)]) @ map (\<lambda>x. (snd x, c x)) xs"
    using Cons.prems(1,2) by (intro Cons.IH) auto
  then show ?case using step by simp
qed

lemma map_snd_enumerate: "map snd (enumerate n xs) = xs"
  by (simp add: enumerate_eq_zip)

lemma snd_set_enumerate: "snd ` set (enumerate n xs) = set xs"
  using map_snd_enumerate[of n xs] by (metis set_map)

lemma foldl_obj_set_headers:
  assumes "distinct hs" and "''__proto__'' \<notin> set hs"
  shows "foldl (\<lambda>m x. obj_set m (snd x) (c x)) [] (enumerate 0 hs)
           = map (\<lambda>x. (snd x, c x)) (enumerate 0 hs)"
  using foldl_obj_set_distinct[of "enumerate 0 hs" "[]" c] assms
  by (simp add: map_snd_enumerate snd_set_enumerate)

lemma length_map_filter_flagged:
  "length (List.map_filter (\<lambda>(i, v). if P v then Some (f i v) else None) (enumerate n col))
     = length (filter P col)"
  by (induction col arbitrary: n) (auto simp: List.map_filter_simps)

lemma set_map_filter: "set (List.map_filter g xs) = {y. \<exists>x. x \<in> set xs \<and> g x = Some y}"
  by (induction xs) (auto split: option.splits)

lemma set_map_filter_enumerate:
  "set (List.map_filter f (enumerate n col)) = {y. \<exists>i<length col. f (n + i, col ! i) = Some y}"
proof -
  have "(\<exists>x. x \<in> set (enumerate n col) \<and> f x = Some y)
          = (\<exists>i<length col. f (n + i, col ! i) = Some y)" for y
  proof
    assume "\<exists>x. x \<in> set (enumerate n col) \<and> f x = Some y"
    then obtain j v where "(j, v) \<in> set (enumerate n col)" "f (j, v) = Some y" by auto
    then have "n \<le> j" "j - n < length col" "v = col ! (j - n)" "f (n + (j - n), col ! (j - n)) = Some y"
      by (auto simp: in_set_enumerate_eq)
    then show "\<exists>i<length col. f (n + i, col ! i) = Some y" by blast
  next
    assume "\<exists>i<length col. f (n + i, col ! i) = Some y"
    then obtain i where "i < length col" "f (n + i, col ! i) = Some y" by blast
    moreover from this have "(n + i, col ! i) \<in> set (enumerate n col)"
      by (simp add: in_set_enumerate_eq)
    ultimately show "\<exists>x. x \<in> set (enumerate n col) \<and> f x = Some y" by blast
  qed
  then show ?thesis by (simp add: set_map_filter)
qed

subsection \<open>Missing values\<close>

lemma missingPass_eq:
  "missingPass d =
     (concat (map (\<lambda>x. missingColumn (snd x) (columnData d (fst x))) (enumerate 0 (headers d))),
      foldl (\<lambda>m x. obj_set m (snd x) (length (missingColumn (snd x) (columnData d (fst x)))))
            [] (enumerate 0 (headers d)))"
proof -
  have "missingPass d =
      foldl (\<lambda>(a, m) x. (a @ missingColumn (snd x) (columnData d (fst x)),
                          obj_set m (snd x) (length (missingColumn (snd x) (columnData d (fst x))))))
            ([], []) (enumerate 0 (headers d))"
    by (simp add: missingPass_def Let_def case_prod_unfold)
  then show ?thesis by (simp add: foldl_pass)
qed

lemma length_missingColumn: "length (missingColumn h col) = length (filter isMissing col)"
  unfolding missingColumn_def by (rule length_map_filter_flagged)

lemma set_missingColumn:
  "set (missingColumn h col) = {missingIssue h i (col ! i) | i. i < length col \<and> isMissing (col ! i)}"
  unfolding missingColumn_def set_map_filter_enumerate by auto

lemma missingValues_distinct:
  assumes "distinct (headers d)" and "''__proto__'' \<notin> set (headers d)"
  shows "snd (missingPass d) =
           map (\<lambda>x. (snd x, length (filter isMissing (columnData d (fst x)))))
               (enumerate 0 (headers d))"
  using foldl_obj_set_headers[OF assms]
  by (simp add: missingPass_eq length_missingColumn)

subsection \<open>What \<open>analyzeData\<close> returns\<close>

lemma analyzeData_unfold:
  "analyzeData E d =
     \<lparr>report =
        \<lparr>totalRows = length (rows d), totalColumns = length (headers d),
         overallScore =
           weightedScore
             (ratioScore (jmul (num (length (rows d))) (num (length (headers d))))
                (total (snd (missingPass d))))
             (ratioScore (num (length (rows d))) (num (length (duplicateRowIndices d))))
             (penaltyScore (total (snd (snd (formatPass E d)))) (num (length (rows d))))
             (penaltyScore (total (snd (rangePass E d))) (num (length (rows d))))
             (penaltyScore (total (snd (inconsistentPass E d (fst (snd (formatPass E d))))))
                (num (length (rows d))))
             (penaltyScore (total (snd (unusualPass E d))) (num (length (rows d))))
             (if length (filter (\<lambda>i. type i = ''sensitive_data'')
                   (fst (missingPass d) @ duplicatePass d @ fst (formatPass E d)
                    @ fst (rangePass E d)
                    @ fst (inconsistentPass E d (fst (snd (formatPass E d))))
                    @ fst (unusualPass E d) @ fst (piiPass E d))) = 0
              then Fin 100
              else penaltyScore
                     (num (length (filter (\<lambda>i. type i = ''sensitive_data'')
                        (fst (missingPass d) @ duplicatePass d @ fst (formatPass E d)
                         @ fst (rangePass E d)
                         @ fst (inconsistentPass E d (fst (snd (formatPass E d))))
                         @ fst (unusualPass E d) @ fst (piiPass E d)))))
                     (num (length (rows d)))),
         missingValuesScore =
           ratioScore (jmul (num (length (rows d))) (num (length (headers d))))
             (total (snd (missingPass d))),
         duplicatesScore =
           ratioScore (num (length (rows d))) (num (length (duplicateRowIndices d))),
         invalidFormatScore =
           penaltyScore (total (snd (snd (formatPass E d)))) (num (length (rows d))),
         valueRangeScore = penaltyScore (total (snd (rangePass E d))) (num (length (rows d))),
         inconsistentValuesScore =
           penaltyScore (total (snd (inconsistentPass E d (fst (snd (formatPass E d))))))
             (num (length (rows d))),
         unusualPatternsScore =
           penaltyScore (total (snd (unusualPass E d))) (num (length (rows d))),
         sensitiveDataScore =
           (if length (filter (\<lambda>i. type i = ''sensitive_data'')
                 (fst (missingPass d) @ duplicatePass d @ fst (formatPass E d)
                  @ fst (rangePass E d)
                  @ fst (inconsistentPass E d (fst (snd (formatPass E d))))
                  @ fst (unusualPass E d) @ fst (piiPass E d))) = 0
            then Fin 100
            else penaltyScore
                   (num (length (filter (\<lambda>i. type i = ''sensitive_data'')
                      (fst (missingPass d) @ duplicatePass d @ fst (formatPass E d)
                       @ fst (rangePass E d)
                       @ fst (inconsistentPass E d (fst (snd (formatPass E d))))
                       @ fst (unusualPass E d) @ fst (piiPass E d)))))
                   (num (length (rows d)))),
         missingValues = snd (missingPass d),
         duplicateRows = length (duplicateRowIndices d),
         dataTypes = fst (snd (formatPass E d)),
         formatIssues = snd (snd (formatPass E d)),
         rangeIssues = snd (rangePass E d),
         inconsistencyIssues = snd (inconsistentPass E d (fst (snd (formatPass E d)))),
         unusualPatterns = snd (unusualPass E d),
         sensitiveDataDetected = snd (piiPass E d)\<rparr>,
      issues =
        fst (missingPass d) @ duplicatePass d @ fst (formatPass E d) @ fst (rangePass E d)
        @ fst (inconsistentPass E d (fst (snd (formatPass E d)))) @ fst (unusualPass E d)
        @ fst (piiPass E d)\<rparr>"
  unfolding analyzeData_def Let_def case_prod_unfold by simp

lemma issues_analyzeData:
  "issues (analyzeData E d) =
     fst (missingPass d) @ duplicatePass d @ fst (formatPass E d) @ fst (rangePass E d)
     @ fst (inconsistentPass E d (fst (snd (formatPass E d)))) @ fst (unusualPass E d)
     @ fst (piiPass E d)"
  by (simp add: analyzeData_unfold)

lemma missingValuesScore_analyzeData:
  "missingValuesScore (report (analyzeData E d)) =
     ratioScore (jmul (num (length (rows d))) (num (length (headers d))))
                (total (snd (missingPass d)))"
  by (simp add: analyzeData_unfold)

lemma duplicatesScore_analyzeData:
  "duplicatesScore (report (analyzeData E d)) =
     ratioScore (num (length (rows d))) (num (length (duplicateRowIndices d)))"
  by (simp add: analyzeData_unfold)

lemma penalty_scores_analyzeData:
  "invalidFormatScore (report (analyzeData E d)) =
     penaltyScore (total (snd (snd (formatPass E d)))) (num (length (rows d)))"
  "valueRangeScore (report (analyzeData E d)) =
     penaltyScore (total (snd (rangePass E d))) (num (length (rows d)))"
  "inconsistentValuesScore (report (analyzeData E d)) =
     penaltyScore (total (snd (inconsistentPass E d (fst (snd (formatPass E d))))))
                  (num (length (rows d)))"
  "unusualPatternsScore (report (analyzeData E d)) =
     penaltyScore (total (snd (unusualPass E d))) (num (length (rows d)))"
  by (simp_all add: analyzeData_unfold)

lemma sensitiveDataScore_analyzeData:
  "sensitiveDataScore (report (analyzeData E d)) =
     (if length (filter (\<lambda>i. type i = ''sensitive_data'') (issues (analyzeData E d))) = 0
      then Fin 100
      else penaltyScore
             (num (length (filter (\<lambda>i. type i = ''sensitive_data'') (issues (analyzeData E d)))))
             (num (length (rows d))))"
  by (simp add: analyzeData_unfold)

lemma overallScore_analyzeData:
  "overallScore (report (analyzeData E d)) =
     weightedScore (missingValuesScore (report (analyzeData E d)))
       (duplicatesScore (report (analyzeData E d)))
       (invalidFormatScore (report (analyzeData E d)))
       (valueRangeScore (report (analyzeData E d)))
       (inconsistentValuesScore (report (analyzeData E d)))
       (unusualPatternsScore (report (analyzeData E d)))
       (sensitiveDataScore (report (analyzeData E d)))"
  by (simp add: analyzeData_unfold)

lemma totalRows_analyzeData: "totalRows (report (analyzeData E d)) = length (rows d)"
  by (simp add: analyzeData_unfold)

lemma dataTypes_analyzeData: "dataTypes (report (analyzeData E d)) = fst (snd (formatPass E d))"
  by (simp add: analyzeData_unfold)

subsection \<open>The other passes\<close>

lemma formatPass_issues:
  "fst (formatPass E d) =
     concat (map (\<lambda>x. formatColumn E (snd x) (inferColumnType (snd x) (columnData d (fst x)))
                          (columnData d (fst x)))
                 (enumerate 0 (headers d)))"
proof -
  have "formatPass E d =
      foldl (\<lambda>(a, m) x.
               (a @ formatColumn E (snd x) (inferColumnType (snd x) (columnData d (fst x)))
                      (columnData d (fst x)),
                (obj_set (fst m) (snd x) (inferColumnType (snd x) (columnData d (fst x))),
                 obj_set (snd m) (snd x)
                   (length (formatColumn E (snd x) (inferColumnType (snd x) (columnData d (fst x)))
                      (columnData d (fst x)))))))
            ([], [], []) (enumerate 0 (headers d))"
    by (simp add: formatPass_def Let_def case_prod_unfold)
  then show ?thesis by (simp add: foldl_pass)
qed

lemma formatPass_dataTypes:
  "fst (snd (formatPass E d)) =
     foldl (\<lambda>m x. obj_set m (snd x) (inferColumnType (snd x) (columnData d (fst x))))
           [] (enumerate 0 (headers d))"
proof -
  have "formatPass E d =
      foldl (\<lambda>(a, m) x.
               (a @ formatColumn E (snd x) (inferColumnType (snd x) (columnData d (fst x)))
                      (columnData d (fst x)),
                (obj_set (fst m) (snd x) (inferColumnType (snd x) (columnData d (fst x))),
                 obj_set (snd m) (snd x)
                   (length (formatColumn E (snd x) (inferColumnType (snd x) (columnData d (fst x)))
                      (columnData d (fst x)))))))
            ([], [], []) (enumerate 0 (headers d))"
    by (simp add: formatPass_def Let_def case_prod_unfold)
  moreover have "fst (foldl (\<lambda>m x. (f (fst m) x, g (snd m) x)) (a, b) xs) = foldl f a xs"
    for f :: "'a \<Rightarrow> 'c \<Rightarrow> 'a" and g :: "'b \<Rightarrow> 'c \<Rightarrow> 'b" and a b xs
    by (induction xs arbitrary: a b) auto
  ultimately show ?thesis by (simp add: foldl_pass)
qed

lemma rangePass_issues:
  "fst (rangePass E d) =
     concat (map (\<lambda>x. rangeColumn E (snd x) (columnData d (fst x))) (enumerate 0 (headers d)))"
proof -
  have "rangePass E d =
      foldl (\<lambda>(a, m) x. (a @ rangeColumn E (snd x) (columnData d (fst x)),
                          obj_set m (snd x) (length (rangeColumn E (snd x) (columnData d (fst x))))))
            ([], []) (enumerate 0 (headers d))"
    by (simp add: rangePass_def Let_def case_prod_unfold)
  then show ?thesis by (simp add: foldl_pass)
qed

lemma inconsistentPass_issues:
  "fst (inconsistentPass E d types) =
     concat (map (\<lambda>x. (if obj_get types (snd x) = Some ''text''
                        then textColumn (snd x) (columnData d (fst x)) else [])
                       @ shipColumn E d (snd x) (columnData d (fst x)))
                 (enumerate 0 (headers d)))"
proof -
  have "inconsistentPass E d types =
      foldl (\<lambda>(a, m) x.
               (a @ ((if obj_get types (snd x) = Some ''text''
                      then textColumn (snd x) (columnData d (fst x)) else [])
                     @ shipColumn E d (snd x) (columnData d (fst x))),
                obj_set m (snd x)
                  (length ((if obj_get types (snd x) = Some ''text''
                            then textColumn (snd x) (columnData d (fst x)) else [])
                           @ shipColumn E d (snd x) (columnData d (fst x))))))
            ([], []) (enumerate 0 (headers d))"
    by (simp add: inconsistentPass_def Let_def case_prod_unfold)
  then show ?thesis by (simp only: foldl_pass fst_conv append_Nil)
qed

lemma unusualPass_issues:
  "fst (unusualPass E d) =
     concat (map (\<lambda>x. unusualColumn E (snd x) (columnData d (fst x))) (enumerate 0 (headers d)))"
proof -
  have "unusualPass E d =
      foldl (\<lambda>(a, m) x. (a @ unusualColumn E (snd x) (columnData d (fst x)),
                          obj_set m (snd x) (length (unusualColumn E (snd x) (columnData d (fst x))))))
            ([], []) (enumerate 0 (headers d))"
    by (simp add: unusualPass_def Let_def case_prod_unfold)
  then show ?thesis by (simp add: foldl_pass)
qed

lemma piiPass_issues:
  "fst (piiPass E d) =
     concat (map (\<lambda>x. map snd (piiColumn E (snd x) (columnData d (fst x))))
                 (enumerate 0 (headers d)))"
proof -
  have "piiPass E d =
      foldl (\<lambda>(a, m) x.
               (a @ map snd (piiColumn E (snd x) (columnData d (fst x))),
                if length (sensitiveTypesOf (piiColumn E (snd x) (columnData d (fst x)))) > 0
                then obj_set m (snd x) (sensitiveTypesOf (piiColumn E (snd x) (columnData d (fst x))))
                else m))
            ([], []) (enumerate 0 (headers d))"
    by (simp add: piiPass_def Let_def case_prod_unfold)
  then show ?thesis by (simp only: foldl_pass fst_conv append_Nil)
qed

subsection \<open>The type of the issues of each pass\<close>

lemma type_missingPass: "i \<in> set (fst (missingPass d)) \<Longrightarrow> type i = ''missing''"
  by (auto simp: missingPass_eq set_missingColumn missingIssue_def)

lemma type_duplicatePass: "i \<in> set (duplicatePass d) \<Longrightarrow> type i = ''duplicate''"
  by (auto simp: duplicatePass_def duplicateIssue_def)

lemma type_formatPass: "i \<in> set (fst (formatPass E d)) \<Longrightarrow> type i = ''invalid_format''"
  by (auto simp: formatPass_issues formatColumn_def set_map_filter_enumerate formatIssue_def
      split: if_splits)

lemma type_rangePass: "i \<in> set (fst (rangePass E d)) \<Longrightarrow> type i = ''value_range''"
  by (auto simp: rangePass_issues rangeColumn_def set_map_filter_enumerate rangeIssue_def
      split: if_splits)

lemma type_textColumn:
  assumes "i \<in> set (textColumn h col)"
  shows "type i = ''inconsistent''"
proof -
  from assms obtain k where
    "(case col ! k of
        Str s \<Rightarrow> if s \<noteq> [] then map_option (textIssue h k (col ! k)) (textCheck s) else None
      | _ \<Rightarrow> None) = Some i"
    by (auto simp: textColumn_def set_map_filter_enumerate)
  then show ?thesis
    by (cases "col ! k") (auto simp: textIssue_def split: if_splits)
qed

lemma shipColumn_cases:
  "shipColumn E d h col = []
   \<or> (\<exists>c. shipColumn E d h col =
           List.map_filter
               (\<lambda>(i, shipDate).
                  let orderDate = cellAt (rows d ! i) c
                  in if truthy shipDate \<and> truthy orderDate then
                       (let ship = dateParse E (toString E shipDate);
                            order = dateParse E (toString E orderDate)
                        in if \<not> isNaN ship \<and> \<not> isNaN order \<and> jlt ship order
                           then Some (shipIssue E h i shipDate orderDate)
                           else None)
                     else None)
               (enumerate 0 col))"
  unfolding shipColumn_def by (cases "findIndex (\<lambda>h. includes_str (toLowerCase h) ''order''
                              \<and> includes_str (toLowerCase h) ''date'') (headers d)") auto

lemma shipColumn_issue:
  assumes "i \<in> set (shipColumn E d h col)"
  shows "\<exists>k a b. i = shipIssue E h k a b"
proof -
  from assms have "shipColumn E d h col \<noteq> []" by auto
  with shipColumn_cases[of E d h col] obtain c where
    "shipColumn E d h col =
           List.map_filter
               (\<lambda>(i, shipDate).
                  let orderDate = cellAt (rows d ! i) c
                  in if truthy shipDate \<and> truthy orderDate then
                       (let ship = dateParse E (toString E shipDate);
                            order = dateParse E (toString E orderDate)
                        in if \<not> isNaN ship \<and> \<not> isNaN order \<and> jlt ship order
                           then Some (shipIssue E h i shipDate orderDate)
                           else None)
                     else None)
               (enumerate 0 col)"
    by blast
  with assms show ?thesis
    by (auto simp: set_map_filter_enumerate Let_def split: if_splits)
qed

lemma type_shipColumn: "i \<in> set (shipColumn E d h col) \<Longrightarrow> type i = ''inconsistent''"
  using shipColumn_issue[of i E d h col] by (auto simp: shipIssue_def)

lemma severity_shipColumn: "i \<in> set (shipColumn E d h col) \<Longrightarrow> severity i = ''high''"
  using shipColumn_issue[of i E d h col] by (auto simp: shipIssue_def)

lemma type_inconsistentPass:
  "i \<in> set (fst (inconsistentPass E d types)) \<Longrightarrow> type i = ''inconsistent''"
  by (auto simp: inconsistentPass_issues type_textColumn type_shipColumn split: if_splits)

lemma type_unusualPass: "i \<in> set (fst (unusualPass E d)) \<Longrightarrow> type i = ''unusual_pattern''"
  by (auto simp: unusualPass_issues unusualColumn_def set_map_filter_enumerate unusualIssue_def
      split: if_splits)

lemma type_piiPass: "i \<in> set (fst (piiPass E d)) \<Longrightarrow> type i = ''sensitive_data''"
  by (auto simp: piiPass_issues piiColumn_def piiCell_def piiIssue_def Let_def split: if_splits)

lemma filter_all: "(\<And>x. x \<in> set xs \<Longrightarrow> P x) \<Longrightarrow> filter P xs = xs"
  by (induction xs) auto

lemma filter_none: "(\<And>x. x \<in> set xs \<Longrightarrow> \<not> P x) \<Longrightarrow> filter P xs = []"
  by (induction xs) auto

lemma duplicate_issues_analyzeData:
  "filter (\<lambda>i. type i = ''duplicate'') (issues (analyzeData E d)) = duplicatePass d"
proof -
  have "filter (\<lambda>i. type i = ''duplicate'') (fst (missingPass d)) = []"
    by (rule filter_none) (simp add: type_missingPass)
  moreover have "filter (\<lambda>i. type i = ''duplicate'') (duplicatePass d) = duplicatePass d"
    by (rule filter_all) (simp add: type_duplicatePass)
  moreover have "filter (\<lambda>i. type i = ''duplicate'') (fst (formatPass E d)) = []"
    by (rule filter_none) (simp add: type_formatPass)
  moreover have "filter (\<lambda>i. type i = ''duplicate'') (fst (rangePass E d)) = []"
    by (rule filter_none) (simp add: type_rangePass)
  moreover have "filter (\<lambda>i. type i = ''duplicate'')
                   (fst (inconsistentPass E d (fst (snd (formatPass E d))))) = []"
    by (rule filter_none) (simp add: type_inconsistentPass)
  moreover have "filter (\<lambda>i. type i = ''duplicate'') (fst (unusualPass E d)) = []"
    by (rule filter_none) (simp add: type_unusualPass)
  moreover have "filter (\<lambda>i. type i = ''duplicate'') (fst (piiPass E d)) = []"
    by (rule filter_none) (simp add: type_piiPass)
  ultimately show ?thesis by (simp add: issues_analyzeData)
qed

section \<open>The scan for duplicate rows\<close>

lemma upt_0_Suc_shift: "[0..<Suc n] = 0 # map Suc [0..<n]"
  by (simp add: upt_conv_Cons map_Suc_upt del: upt_Suc)

lemma Least_shift:
  assumes "\<not> P 0" "P (Suc m)"
  shows "(LEAST j. P j) = Suc (LEAST j. P (Suc j))"
  using assms by (intro Least_Suc) auto

lemma duplicateScan_char:
  "duplicateScan seen k rs =
     concat (map (\<lambda>i. case seen (JSON_stringify (rs ! i)) of
                        Some orig \<Rightarrow> [(k + i, orig)]
                      | None \<Rightarrow>
                          if \<exists>j<i. JSON_stringify (rs ! j) = JSON_stringify (rs ! i)
                          then [(k + i, k + (LEAST j. JSON_stringify (rs ! j) = JSON_stringify (rs ! i)))]
                          else [])
                 [0..<length rs])"
proof (induction rs arbitrary: seen k)
  case Nil
  then show ?case by simp
next
  case (Cons row rest)
  let ?key = "\<lambda>r. JSON_stringify r"
  show ?case
  proof (cases "seen (?key row)")
    case (Some orig)
    have step: "duplicateScan seen k (row # rest) = (k, orig) # duplicateScan seen (Suc k) rest"
      using Some by (simp add: Let_def)
    have tail: "concat (map (\<lambda>i. case seen (?key ((row # rest) ! i)) of
                        Some orig \<Rightarrow> [(k + i, orig)]
                      | None \<Rightarrow>
                          if \<exists>j<i. ?key ((row # rest) ! j) = ?key ((row # rest) ! i)
                          then [(k + i, k + (LEAST j. ?key ((row # rest) ! j) = ?key ((row # rest) ! i)))]
                          else [])
                 (map Suc [0..<length rest]))
        = duplicateScan seen (Suc k) rest"
      unfolding Cons.IH[of seen "Suc k"] map_map
    proof (rule arg_cong[where f = concat], rule map_cong[OF refl], goal_cases)
      case (1 i)
      show ?case
      proof (cases "seen (?key (rest ! i))")
        case None
        then have ne: "?key row \<noteq> ?key (rest ! i)" using Some by auto
        have ex: "(\<exists>j<Suc i. ?key ((row # rest) ! j) = ?key (rest ! i))
                  = (\<exists>j<i. ?key (rest ! j) = ?key (rest ! i))"
          using ne by (auto simp: less_Suc_eq_0_disj)
        have ls: "(\<exists>j<i. ?key (rest ! j) = ?key (rest ! i)) \<Longrightarrow>
            (LEAST j. ?key ((row # rest) ! j) = ?key (rest ! i))
             = Suc (LEAST j. ?key (rest ! j) = ?key (rest ! i))"
          using Least_shift[of "\<lambda>j. ?key ((row # rest) ! j) = ?key (rest ! i)"] ne by auto
        show ?thesis using None ex ls by (simp add: o_def)
      next
        case (Some a)
        then show ?thesis by (simp add: o_def)
      qed
    qed
    show ?thesis
      unfolding step length_Cons upt_0_Suc_shift
      using Some tail by simp
  next
    case None
    have step: "duplicateScan seen k (row # rest)
                 = duplicateScan (seen(?key row \<mapsto> k)) (Suc k) rest"
      using None by (simp add: Let_def)
    have tail: "concat (map (\<lambda>i. case seen (?key ((row # rest) ! i)) of
                        Some orig \<Rightarrow> [(k + i, orig)]
                      | None \<Rightarrow>
                          if \<exists>j<i. ?key ((row # rest) ! j) = ?key ((row # rest) ! i)
                          then [(k + i, k + (LEAST j. ?key ((row # rest) ! j) = ?key ((row # rest) ! i)))]
                          else [])
                 (map Suc [0..<length rest]))
        = duplicateScan (seen(?key row \<mapsto> k)) (Suc k) rest"
      unfolding Cons.IH[of "seen(?key row \<mapsto> k)" "Suc k"] map_map
    proof (rule arg_cong[where f = concat], rule map_cong[OF refl], goal_cases)
      case (1 i)
      show ?case
      proof (cases "?key row = ?key (rest ! i)")
        case True
        have "(LEAST j. ?key ((row # rest) ! j) = ?key (rest ! i)) = 0"
          using True by (intro Least_eq_0) simp
        moreover have "\<exists>j<Suc i. ?key ((row # rest) ! j) = ?key (rest ! i)"
          using True by (intro exI[of _ 0]) simp
        ultimately show ?thesis using True None by (simp add: o_def)
      next
        case False
        have ex: "(\<exists>j<Suc i. ?key ((row # rest) ! j) = ?key (rest ! i))
                  = (\<exists>j<i. ?key (rest ! j) = ?key (rest ! i))"
          using False by (auto simp: less_Suc_eq_0_disj)
        have ls: "(\<exists>j<i. ?key (rest ! j) = ?key (rest ! i)) \<Longrightarrow>
            (LEAST j. ?key ((row # rest) ! j) = ?key (rest ! i))
             = Suc (LEAST j. ?key (rest ! j) = ?key (rest ! i))"
          using Least_shift[of "\<lambda>j. ?key ((row # rest) ! j) = ?key (rest ! i)"] False by auto
        show ?thesis using False ex ls by (simp add: o_def split: option.splits)
      qed
    qed
    show ?thesis
      unfolding step length_Cons upt_0_Suc_shift
      using None tail by simp
  qed
qed

section \<open>Where an issue of a cell appears in the result\<close>

lemma columnData_nth:
  "r < length (rows d) \<Longrightarrow> columnData d c ! r = cellAt (rows d ! r) c"
  by (simp add: columnData_def)

lemma length_columnData [simp]: "length (columnData d c) = length (rows d)"
  by (simp add: columnData_def)

lemma header_in_enumerate:
  "c < length hs \<Longrightarrow> (c, hs ! c) \<in> set (enumerate 0 hs)"
  by (simp add: in_set_enumerate_eq)

lemma missing_issue_in_analysis:
  assumes "c < length (headers d)" and "r < length (rows d)"
    and "isMissing (cellAt (rows d ! r) c)"
  shows "missingIssue (headers d ! c) r (cellAt (rows d ! r) c) \<in> set (issues (analyzeData E d))"
proof -
  have "missingIssue (headers d ! c) r (cellAt (rows d ! r) c)
          \<in> set (missingColumn (headers d ! c) (columnData d c))"
    using assms(2,3) columnData_nth[OF assms(2), of c]
    by (auto simp: set_missingColumn intro!: exI[of _ r])
  then have "missingIssue (headers d ! c) r (cellAt (rows d ! r) c) \<in> set (fst (missingPass d))"
    using header_in_enumerate[OF assms(1)] by (force simp: missingPass_eq)
  then show ?thesis by (simp add: issues_analyzeData)
qed

lemma range_issue_in_analysis:
  assumes "c < length (headers d)" and "r < length (rows d)"
    and "nonEmpty (cellAt (rows d ! r) c)"
    and "rangeCheck E (headers d ! c) (cellAt (rows d ! r) c) = Some msg"
  shows "rangeIssue (headers d ! c) r (cellAt (rows d ! r) c) msg \<in> set (issues (analyzeData E d))"
proof -
  have "rangeIssue (headers d ! c) r (cellAt (rows d ! r) c) msg
          \<in> set (rangeColumn E (headers d ! c) (columnData d c))"
    using assms(2,3,4) columnData_nth[OF assms(2), of c]
    by (auto simp: rangeColumn_def set_map_filter_enumerate intro!: exI[of _ r])
  then have "rangeIssue (headers d ! c) r (cellAt (rows d ! r) c) msg \<in> set (fst (rangePass E d))"
    using header_in_enumerate[OF assms(1)] by (force simp: rangePass_issues)
  then show ?thesis by (simp add: issues_analyzeData)
qed

lemma format_issue_in_analysis:
  assumes "c < length (headers d)" and "r < length (rows d)"
    and "nonEmpty (cellAt (rows d ! r) c)"
    and "formatCheck E (inferColumnType (headers d ! c) (columnData d c)) (cellAt (rows d ! r) c)
           = Some msg"
  shows "formatIssue (headers d ! c) r (cellAt (rows d ! r) c) msg \<in> set (issues (analyzeData E d))"
proof -
  have "formatIssue (headers d ! c) r (cellAt (rows d ! r) c) msg
          \<in> set (formatColumn E (headers d ! c) (inferColumnType (headers d ! c) (columnData d c))
                   (columnData d c))"
    using assms(2,3,4) columnData_nth[OF assms(2), of c]
    by (auto simp: formatColumn_def set_map_filter_enumerate intro!: exI[of _ r])
  then have "formatIssue (headers d ! c) r (cellAt (rows d ! r) c) msg \<in> set (fst (formatPass E d))"
    using header_in_enumerate[OF assms(1)] by (force simp: formatPass_issues)
  then show ?thesis by (simp add: issues_analyzeData)
qed

section \<open>The score of a ratio\<close>

lemma dbl_consts:
  "dbl 1 = Fin 1" "dbl 100 = Fin 100"
  "dbl (199 / 200) = Fin (8962163258467287 / 9007199254740992)"
  "dbl (8962163258467287 / 9007199254740992 * 100) = Fin (199 / 2)"
  "dbl (4481081629233643 / 4503599627370496) = Fin (4481081629233643 / 4503599627370496)"
  "dbl (4481081629233643 / 4503599627370496 * 100) = Fin (7001690045677567 / 70368744177664)"
  by code_simp+

lemma small_below_huge: "x \<le> 100 \<Longrightarrow> x < (2::rat) powi 1023"
proof -
  assume "x \<le> 100"
  also have "(100::rat) < 2 powi 7" by (simp add: power_int_def)
  also have "(2::rat) powi 7 < 2 powi 1023" by (intro power_int_strict_increasing) auto
  finally show ?thesis .
qed

lemma num_sub:
  assumes "m \<le> T" "T < 2 ^ 53"
  shows "jsub (num T) (num m) = num (T - m)"
proof -
  have "jsub (num T) (num m) = dbl (of_nat T - of_nat m)"
    by (simp add: jsub_def jneg_def num_def)
  also have "(of_nat T - of_nat m :: rat) = of_nat (T - m)" using assms(1) by (simp add: of_nat_diff)
  also have "dbl (of_nat (T - m)) = Fin (of_nat (T - m))"
    using assms by (intro dbl_of_nat) simp
  finally show ?thesis by (simp add: num_def)
qed

lemma ratioScore_form:
  assumes "0 < T" "m \<le> T" "T < 2 ^ 53"
  obtains w y where "dbl (of_nat (T - m) / of_nat T) = Fin w" "dbl (w * 100) = Fin y"
    "ratioScore (num T) (num m) = Fin (of_int \<lfloor>y + 1 / 2\<rfloor>)"
    "0 \<le> w" "w \<le> 1" "0 \<le> y" "y \<le> 100"
proof -
  define x :: rat where "x = of_nat (T - m) / of_nat T"
  have x0: "0 \<le> x" by (simp add: x_def)
  have x1: "x \<le> 1" using assms(1) by (simp add: x_def)
  then have xh: "x < 2 powi 1023" by (intro small_below_huge) simp
  obtain w where w: "dbl x = Fin w" "0 \<le> w" using dbl_nonneg_Fin[OF x0 xh] by blast
  have w1: "w \<le> 1"
    using dbl_mono[OF x0 x1 _ w(1) dbl_consts(1)] small_below_huge[of 1] by simp
  have y0: "0 \<le> w * 100" using w(2) by simp
  have y1: "w * 100 \<le> 100" using w1 by simp
  obtain y where y: "dbl (w * 100) = Fin y" "0 \<le> y"
    using dbl_nonneg_Fin[OF y0 small_below_huge[OF y1]] by blast
  have y100: "y \<le> 100"
    using dbl_mono[OF y0 y1 _ y(1) dbl_consts(2)] small_below_huge[of 100] by simp
  have T0: "(of_nat T :: rat) \<noteq> 0" using assms(1) by simp
  have "ratioScore (num T) (num m) = Math_round (jmul (jdiv (num (T - m)) (num T)) (Fin 100))"
    by (simp add: ratioScore_def num_sub[OF assms(2,3)])
  also have "jdiv (num (T - m)) (num T) = Fin w"
    using T0 w(1) by (simp add: num_def x_def)
  also have "Math_round (jmul (Fin w) (Fin 100)) = Fin (of_int \<lfloor>y + 1 / 2\<rfloor>)"
    using y(1) by (simp add: Math_round_def)
  finally have "ratioScore (num T) (num m) = Fin (of_int \<lfloor>y + 1 / 2\<rfloor>)" .
  then show ?thesis using that w y w1 y100 by (simp add: x_def)
qed

lemma ratioScore_mono:
  assumes "0 < T" "m1 \<le> m2" "m2 \<le> T" "T < 2 ^ 53"
  shows "\<exists>a b. ratioScore (num T) (num m1) = Fin a \<and> ratioScore (num T) (num m2) = Fin b \<and> b \<le> a"
proof -
  have m1: "m1 \<le> T" using assms by simp
  obtain w1 y1 where 1: "dbl (of_nat (T - m1) / of_nat T) = Fin w1" "dbl (w1 * 100) = Fin y1"
    "ratioScore (num T) (num m1) = Fin (of_int \<lfloor>y1 + 1 / 2\<rfloor>)" "0 \<le> w1" "w1 \<le> 1"
    using ratioScore_form[OF assms(1) m1 assms(4)] by metis
  obtain w2 y2 where 2: "dbl (of_nat (T - m2) / of_nat T) = Fin w2" "dbl (w2 * 100) = Fin y2"
    "ratioScore (num T) (num m2) = Fin (of_int \<lfloor>y2 + 1 / 2\<rfloor>)" "0 \<le> w2" "w2 \<le> 1"
    using ratioScore_form[OF assms(1) assms(3) assms(4)] by metis
  have "(of_nat (T - m2) / of_nat T :: rat) \<le> of_nat (T - m1) / of_nat T"
    using assms by (intro divide_right_mono) auto
  moreover have "(of_nat (T - m1) / of_nat T :: rat) \<le> 1" using assms(1) by simp
  ultimately have "w2 \<le> w1"
    using dbl_mono[OF _ _ _ 2(1) 1(1)] small_below_huge[of "of_nat (T - m1) / of_nat T"] by simp
  then have "w2 * 100 \<le> w1 * 100" by simp
  moreover have "w1 * 100 \<le> 100" using 1(5) by simp
  moreover have "0 \<le> w2 * 100" using 2(4) by simp
  ultimately have "y2 \<le> y1"
    using dbl_mono[OF _ _ _ 2(2) 1(2)] small_below_huge[of "w1 * 100"] by simp
  then have "(of_int \<lfloor>y2 + 1 / 2\<rfloor> :: rat) \<le> of_int \<lfloor>y1 + 1 / 2\<rfloor>"
    by (simp add: floor_mono)
  then show ?thesis using 1(3) 2(3) by blast
qed

lemma ratioScore_100_iff:
  assumes "0 < T" "m \<le> T" "T < 2 ^ 45"
  shows "(ratioScore (num T) (num m) = Fin 100) = (200 * m \<le> T)"
proof -
  have T53: "T < 2 ^ 53"
  proof -
    have "(2::nat) ^ 45 \<le> 2 ^ 53" by (intro power_increasing) auto
    then show ?thesis using assms(3) by simp
  qed
  define x :: rat where "x = of_nat (T - m) / of_nat T"
  obtain w y where f: "dbl x = Fin w" "dbl (w * 100) = Fin y"
    "ratioScore (num T) (num m) = Fin (of_int \<lfloor>y + 1 / 2\<rfloor>)" "0 \<le> w" "w \<le> 1" "0 \<le> y" "y \<le> 100"
    using ratioScore_form[OF assms(1,2) T53] unfolding x_def by metis
  have x0: "0 \<le> x" by (simp add: x_def)
  have x1: "x \<le> 1" using assms(1) by (simp add: x_def)
  have Tpos: "(0::rat) < of_nat T" using assms(1) by simp
  have xeq: "x = 1 - of_nat m / of_nat T"
    using assms(1,2) by (simp add: x_def diff_divide_distrib)
  have score: "(ratioScore (num T) (num m) = Fin 100) = (199 / 2 \<le> y)"
  proof -
    have "(\<lfloor>y + 1 / 2\<rfloor> = 100) = (199 / 2 \<le> y)"
      using f(7) by (auto simp: floor_eq_iff)
    then show ?thesis using f(3) by (simp add: of_int_eq_iff[symmetric] del: of_int_eq_iff)
  qed
  show ?thesis
  proof (cases "200 * m \<le> T")
    case True
    then have "(of_nat (200 * m) :: rat) \<le> of_nat T" using of_nat_le_iff by blast
    then have "of_nat m / of_nat T \<le> (1 / 200 :: rat)" using Tpos by (simp add: field_simps)
    then have lo: "199 / 200 \<le> x" using xeq by simp
    have "8962163258467287 / 9007199254740992 \<le> w"
      using dbl_mono[OF _ lo _ dbl_consts(3) f(1)] small_below_huge[of x] x1 by simp
    then have lo2: "8962163258467287 / 9007199254740992 * 100 \<le> w * 100" by simp
    have "w * 100 \<le> 100" using f(5) by simp
    then have "199 / 2 \<le> y"
      using dbl_mono[OF _ lo2 _ dbl_consts(4) f(2)] small_below_huge[of "w * 100"] by simp
    then show ?thesis using True score by simp
  next
    case False
    then have "T + 1 \<le> 200 * m" by simp
    then have "(of_nat (T + 1) :: rat) \<le> of_nat (200 * m)" using of_nat_le_iff by blast
    then have "(of_nat T + 1 :: rat) \<le> 200 * of_nat m" by simp
    then have "(of_nat T + 1) / (200 * of_nat T) \<le> (200 * of_nat m) / (200 * of_nat T :: rat)"
      using Tpos by (intro divide_right_mono) auto
    then have "(of_nat T + 1) / (200 * of_nat T) \<le> (of_nat m / of_nat T :: rat)"
      by simp
    moreover have "(of_nat T + 1) / (200 * of_nat T) = (1 / 200 + 1 / (200 * of_nat T) :: rat)"
      using Tpos by (simp add: field_simps)
    ultimately have up: "x \<le> 199 / 200 - 1 / (200 * of_nat T)" using xeq by simp
    have "(of_nat T :: rat) \<le> of_nat (2 ^ 45)" using assms(3) of_nat_le_iff less_imp_le by blast
    then have "(200 * of_nat T :: rat) \<le> 200 * 2 ^ 45" by simp
    then have "1 / (200 * 2 ^ 45) \<le> 1 / (200 * of_nat T :: rat)"
      using Tpos by (intro divide_left_mono) auto
    then have "x \<le> 199 / 200 - 1 / (200 * 2 ^ 45)" using up by simp
    also have "\<dots> \<le> 4481081629233643 / 4503599627370496" by simp
    finally have hi: "x \<le> 4481081629233643 / 4503599627370496" .
    have "w \<le> 4481081629233643 / 4503599627370496"
      using dbl_mono[OF x0 hi _ f(1) dbl_consts(5)]
        small_below_huge[of "4481081629233643 / 4503599627370496"] by simp
    then have hi2: "w * 100 \<le> 4481081629233643 / 4503599627370496 * 100" by simp
    have "0 \<le> w * 100" using f(4) by simp
    then have "y \<le> 7001690045677567 / 70368744177664"
      using dbl_mono[OF _ hi2 _ f(2) dbl_consts(6)]
        small_below_huge[of "4481081629233643 / 4503599627370496 * 100"] by simp
    then have "\<not> 199 / 2 \<le> y" by simp
    then show ?thesis using False score by simp
  qed
qed

section \<open>The missing-values score and the missing cells\<close>

lemma map_fst_of_enumerate:
  "map (\<lambda>x. f (fst x)) (enumerate 0 xs) = map f [0..<length xs]"
proof -
  have "map (\<lambda>x. f (fst x)) (enumerate 0 xs) = map f (map fst (enumerate 0 xs))"
    by (simp only: map_map o_def)
  then show ?thesis by (simp only: map_fst_enumerate add_0)
qed

lemma totalMissing_distinct:
  assumes "distinct (headers d)" and "''__proto__'' \<notin> set (headers d)"
  shows "total (snd (missingPass d)) = num (missingCells d)"
  using map_fst_of_enumerate[of "\<lambda>c. length (filter isMissing (columnData d c))" "headers d"]
  by (simp add: total_def Object_values_def missingValues_distinct[OF assms] missingCells_def
      o_def)

lemma missingCells_le: "missingCells d \<le> length (rows d) * length (headers d)"
proof -
  have "sum_list (map (\<lambda>c. length (filter isMissing (columnData d c))) cs)
          \<le> length (rows d) * length cs" for cs
  proof (induction cs)
    case Nil
    then show ?case by simp
  next
    case (Cons c cs)
    have "length (filter isMissing (columnData d c)) \<le> length (rows d)"
      using length_filter_le[of isMissing "columnData d c"] by simp
    then show ?case using Cons by simp
  qed
  from this[of "[0..<length (headers d)]"] show ?thesis by (simp add: missingCells_def)
qed

lemma missingCells_zero:
  "(missingCells d = 0) =
     (\<forall>c r. c < length (headers d) \<longrightarrow> r < length (rows d) \<longrightarrow> \<not> isMissing (cellAt (rows d ! r) c))"
proof -
  have "(length (filter isMissing (columnData d c)) = 0)
          = (\<forall>r<length (rows d). \<not> isMissing (cellAt (rows d ! r) c))" for c
    by (simp add: filter_empty_conv columnData_def all_set_conv_all_nth)
  then show ?thesis by (auto simp: missingCells_def)
qed

lemma missingValuesScore_distinct:
  assumes "distinct (headers d)" and "''__proto__'' \<notin> set (headers d)"
    and "length (rows d) * length (headers d) < 2 ^ 53"
  shows "missingValuesScore (report (analyzeData E d)) =
           ratioScore (num (length (rows d) * length (headers d))) (num (missingCells d))"
proof -
  have "jmul (num (length (rows d))) (num (length (headers d)))
          = dbl (of_nat (length (rows d) * length (headers d)))"
    by (simp add: num_def)
  also have "\<dots> = num (length (rows d) * length (headers d))"
    unfolding num_def using assms(3) by (rule dbl_of_nat)
  finally show ?thesis
    by (simp add: missingValuesScore_analyzeData totalMissing_distinct[OF assms(1,2)])
qed

lemma pow45_53: "n < 2 ^ 45 \<Longrightarrow> n < (2::nat) ^ 53"
proof -
  assume "n < 2 ^ 45"
  moreover have "(2::nat) ^ 45 \<le> 2 ^ 53" by (intro power_increasing) auto
  ultimately show ?thesis by simp
qed

section \<open>The threshold of the numeric type\<close>

lemma lit_07: "lit 0.7 = Fin (3152519739159347 / 4503599627370496)"
  by code_simp

lemma rnd_err_small:
  assumes "0 < x" "x < 2 ^ 32"
  shows "\<bar>rnd x - x\<bar> \<le> 1 / 2 ^ 22"
proof -
  have "x < 2 powi 32" using assms(2) by (simp add: power_int_def)
  then have "ilog2 x < 32" using assms(1) by (intro ilog2_less)
  then have "max (ilog2 x) (- 1022) - 52 \<le> - 21" by simp
  then have "ulp x \<le> 2 powi (- 21)" unfolding ulp_def by (intro power_int_increasing) auto
  also have "(2::rat) powi (- 21) = 1 / 2 ^ 21" by (simp add: power_int_minus inverse_eq_divide)
  finally have "ulp x / 2 \<le> 1 / 2 ^ 22" by simp
  then show ?thesis using rnd_err[of x] by linarith
qed

lemma threshold_07:
  assumes "n < 2 ^ 32"
  obtains t where "jmul (num n) (lit 0.7) = Fin t"
    "\<bar>t - 7 * of_nat n / 10\<bar> \<le> 1 / 2 ^ 20"
proof (cases "n = 0")
  case True
  then show ?thesis using that[of 0] by (simp add: lit_07 num_def)
next
  case False
  define c :: rat where "c = 3152519739159347 / 4503599627370496"
  define x where "x = of_nat n * c"
  have n0: "(0::rat) < of_nat n" using False by simp
  have nb: "(of_nat n :: rat) < 2 ^ 32"
  proof -
    have "(of_nat n :: rat) < of_nat (2 ^ 32)" using assms of_nat_less_iff by blast
    then show ?thesis by simp
  qed
  have x0: "0 < x" using n0 by (simp add: x_def c_def)
  have "x \<le> of_nat n * 1" unfolding x_def using n0 by (intro mult_left_mono) (simp_all add: c_def)
  then have xb: "x < 2 ^ 32" using nb by simp
  have "(2::rat) ^ 32 = 2 powi 32" by (simp add: power_int_def)
  also have "\<dots> < 2 powi 1023" by (intro power_int_strict_increasing) auto
  finally have "x < 2 powi 1023" using xb by simp
  then have d: "dbl x = Fin (rnd x)" using x0 by (intro dbl_pos)
  have e1: "\<bar>rnd x - x\<bar> \<le> 1 / 2 ^ 22" using x0 xb by (rule rnd_err_small)
  have "x - 7 * of_nat n / 10 = of_nat n * (c - 7 / 10)" by (simp add: x_def algebra_simps)
  also have "c - 7 / 10 = - (1 / 22517998136852480)" by (simp add: c_def)
  finally have "\<bar>x - 7 * of_nat n / 10\<bar> = of_nat n * (1 / 22517998136852480)"
    using n0 by (simp add: abs_mult)
  also have "\<dots> \<le> 2 ^ 32 * (1 / 22517998136852480)"
    using nb by (intro mult_right_mono) auto
  also have "\<dots> \<le> 1 / 2 ^ 22" by simp
  finally have e2: "\<bar>x - 7 * of_nat n / 10\<bar> \<le> 1 / 2 ^ 22" .
  have "\<bar>rnd x - 7 * of_nat n / 10\<bar> \<le> 1 / 2 ^ 22 + 1 / 2 ^ 22" using e1 e2 by linarith
  also have "\<dots> \<le> (1 / 2 ^ 20 :: rat)" by simp
  finally have "\<bar>rnd x - 7 * of_nat n / 10\<bar> \<le> 1 / 2 ^ 20" .
  moreover have "jmul (num n) (lit 0.7) = Fin (rnd x)"
    using d by (simp add: lit_07 num_def x_def c_def)
  ultimately show ?thesis using that by blast
qed

lemma numeric_threshold:
  assumes "n < 2 ^ 32"
  shows "7 * n < 10 * k \<Longrightarrow> jgt (num k) (jmul (num n) (lit 0.7))"
    and "10 * k < 7 * n \<Longrightarrow> \<not> jgt (num k) (jmul (num n) (lit 0.7))"
proof -
  obtain t where t: "jmul (num n) (lit 0.7) = Fin t" "\<bar>t - 7 * of_nat n / 10\<bar> \<le> 1 / 2 ^ 20"
    using threshold_07[OF assms] by blast
  {
    assume "7 * n < 10 * k"
    then have "7 * n + 1 \<le> 10 * k" by simp
    then have "(of_nat (7 * n + 1) :: rat) \<le> of_nat (10 * k)" using of_nat_le_iff by blast
    then have "7 * of_nat n / 10 + 1 / 10 \<le> (of_nat k :: rat)" by simp
    moreover have "(1 / 2 ^ 20 :: rat) < 1 / 10" by simp
    ultimately have "t < of_nat k" using t(2) by linarith
    then show "jgt (num k) (jmul (num n) (lit 0.7))"
      unfolding jgt_def t(1) by (simp add: num_def)
  }
  {
    assume "10 * k < 7 * n"
    then have "10 * k + 1 \<le> 7 * n" by simp
    then have "(of_nat (10 * k + 1) :: rat) \<le> of_nat (7 * n)" using of_nat_le_iff by blast
    then have "(of_nat k :: rat) + 1 / 10 \<le> 7 * of_nat n / 10" by simp
    moreover have "(1 / 2 ^ 20 :: rat) < 1 / 10" by simp
    ultimately have "of_nat k < t" using t(2) by linarith
    then show "\<not> jgt (num k) (jmul (num n) (lit 0.7))"
      unfolding jgt_def t(1) by (simp add: num_def)
  }
qed

section \<open>Issues of the inconsistent-values analyzer\<close>

lemma inconsistent_issues_analyzeData:
  "filter (\<lambda>i. type i = ''inconsistent'') (issues (analyzeData E d))
     = fst (inconsistentPass E d (dataTypes (report (analyzeData E d))))"
proof -
  have "filter (\<lambda>i. type i = ''inconsistent'') (fst (missingPass d)) = []"
    by (rule filter_none) (simp add: type_missingPass)
  moreover have "filter (\<lambda>i. type i = ''inconsistent'') (duplicatePass d) = []"
    by (rule filter_none) (simp add: type_duplicatePass)
  moreover have "filter (\<lambda>i. type i = ''inconsistent'') (fst (formatPass E d)) = []"
    by (rule filter_none) (simp add: type_formatPass)
  moreover have "filter (\<lambda>i. type i = ''inconsistent'') (fst (rangePass E d)) = []"
    by (rule filter_none) (simp add: type_rangePass)
  moreover have "filter (\<lambda>i. type i = ''inconsistent'')
                   (fst (inconsistentPass E d (fst (snd (formatPass E d)))))
                 = fst (inconsistentPass E d (fst (snd (formatPass E d))))"
    by (rule filter_all) (simp add: type_inconsistentPass)
  moreover have "filter (\<lambda>i. type i = ''inconsistent'') (fst (unusualPass E d)) = []"
    by (rule filter_none) (simp add: type_unusualPass)
  moreover have "filter (\<lambda>i. type i = ''inconsistent'') (fst (piiPass E d)) = []"
    by (rule filter_none) (simp add: type_piiPass)
  ultimately show ?thesis by (simp add: issues_analyzeData dataTypes_analyzeData)
qed

lemma textCheck_Some:
  "(\<exists>msg. textCheck s = Some msg)
     = ((s \<noteq> toLowerCase s \<and> s \<noteq> toUpperCase s
           \<and> s \<noteq> toUpperCase (charAt0 s) @ toLowerCase (slice1 s))
        \<or> s \<noteq> trim s \<or> includes_str s ''  '')"
  by (simp add: textCheck_def Let_def)

lemma set_textColumn:
  "set (textColumn h col)
     = {i. \<exists>k s msg. i = textIssue h k (Str s) msg \<and> k < length col \<and> col ! k = Str s
                      \<and> s \<noteq> [] \<and> textCheck s = Some msg}"
proof -
  have "((case col ! k of
            Str s \<Rightarrow> if s \<noteq> [] then map_option (textIssue h k (col ! k)) (textCheck s) else None
          | _ \<Rightarrow> None) = Some i)
        = (\<exists>s msg. i = textIssue h k (Str s) msg \<and> col ! k = Str s \<and> s \<noteq> []
                    \<and> textCheck s = Some msg)" for k i
    by (cases "col ! k") auto
  then show ?thesis
    by (auto simp: textColumn_def set_map_filter_enumerate)
qed

lemma text_issue_fields:
  "type (textIssue h k v msg) = ''inconsistent''" "severity (textIssue h k v msg) = ''low''"
  "column (textIssue h k v msg) = h" "rowIndex (textIssue h k v msg) = k"
  "description (textIssue h k v msg) = msg"
  by (simp_all add: textIssue_def)

lemma low_inconsistent_issue:
  assumes "i \<in> set (issues (analyzeData E d))" and "type i = ''inconsistent''"
    and "severity i = ''low''"
  shows "\<exists>c k s msg. c < length (headers d) \<and> k < length (rows d)
           \<and> obj_get (dataTypes (report (analyzeData E d))) (headers d ! c) = Some ''text''
           \<and> i = textIssue (headers d ! c) k (Str s) msg
           \<and> cellAt (rows d ! k) c = Str s \<and> s \<noteq> [] \<and> textCheck s = Some msg"
proof -
  let ?T = "dataTypes (report (analyzeData E d))"
  from assms(1,2) have "i \<in> set (filter (\<lambda>i. type i = ''inconsistent'') (issues (analyzeData E d)))"
    by simp
  then have "i \<in> set (fst (inconsistentPass E d ?T))"
    by (simp only: inconsistent_issues_analyzeData)
  then obtain x where x: "x \<in> set (enumerate 0 (headers d))"
    and i: "i \<in> set ((if obj_get ?T (snd x) = Some ''text''
                       then textColumn (snd x) (columnData d (fst x)) else [])
                      @ shipColumn E d (snd x) (columnData d (fst x)))"
    unfolding inconsistentPass_issues by auto
  from x have c: "fst x < length (headers d)" "snd x = headers d ! fst x"
    by (auto simp: in_set_enumerate_eq)
  from i assms(3) severity_shipColumn[of i E d "snd x" "columnData d (fst x)"]
  have t: "obj_get ?T (snd x) = Some ''text''"
    and m: "i \<in> set (textColumn (snd x) (columnData d (fst x)))"
    by (auto split: if_splits)
  from m obtain k s msg where k: "i = textIssue (snd x) k (Str s) msg"
    "k < length (rows d)" "columnData d (fst x) ! k = Str s" "s \<noteq> []" "textCheck s = Some msg"
    by (auto simp: set_textColumn)
  from k(2,3) have "cellAt (rows d ! k) (fst x) = Str s" by (simp add: columnData_nth)
  with c t k show ?thesis by metis
qed

lemma text_issue_in_analysis:
  assumes "c < length (headers d)" and "r < length (rows d)"
    and "obj_get (dataTypes (report (analyzeData E d))) (headers d ! c) = Some ''text''"
    and "cellAt (rows d ! r) c = Str s" and "s \<noteq> []" and "textCheck s = Some msg"
  shows "textIssue (headers d ! c) r (Str s) msg \<in> set (issues (analyzeData E d))"
proof -
  let ?T = "dataTypes (report (analyzeData E d))"
  have "textIssue (headers d ! c) r (Str s) msg
          \<in> set (textColumn (headers d ! c) (columnData d c))"
    using assms(2,4,5,6) columnData_nth[OF assms(2), of c]
    by (auto simp: set_textColumn)
  then have "textIssue (headers d ! c) r (Str s) msg \<in> set (fst (inconsistentPass E d ?T))"
    using header_in_enumerate[OF assms(1)] assms(3) by (force simp: inconsistentPass_issues)
  then have "textIssue (headers d ! c) r (Str s) msg
          \<in> set (filter (\<lambda>i. type i = ''inconsistent'') (issues (analyzeData E d)))"
    by (simp only: inconsistent_issues_analyzeData)
  then show ?thesis by simp
qed

section \<open>Cells that pass the guard of the pattern and sensitive-data analyzers\<close>

lemma unusual_issue_in_analysis:
  assumes "c < length (headers d)" and "r < length (rows d)"
    and "nonEmpty (cellAt (rows d ! r) c)"
    and "unusualCheck E (headers d ! c) (cellAt (rows d ! r) c) = Some msg"
  shows "unusualIssue (headers d ! c) r (cellAt (rows d ! r) c) msg \<in> set (issues (analyzeData E d))"
proof -
  have "unusualIssue (headers d ! c) r (cellAt (rows d ! r) c) msg
          \<in> set (unusualColumn E (headers d ! c) (columnData d c))"
    using assms(2,3,4) columnData_nth[OF assms(2), of c]
    by (auto simp: unusualColumn_def set_map_filter_enumerate intro!: exI[of _ r])
  then have "unusualIssue (headers d ! c) r (cellAt (rows d ! r) c) msg \<in> set (fst (unusualPass E d))"
    using header_in_enumerate[OF assms(1)] by (force simp: unusualPass_issues)
  then show ?thesis by (simp add: issues_analyzeData)
qed

lemma pii_issue_in_analysis:
  assumes "c < length (headers d)" and "r < length (rows d)"
    and "x \<in> set (piiCell E (headers d ! c) r (cellAt (rows d ! r) c))"
  shows "snd x \<in> set (issues (analyzeData E d))"
proof -
  have "(r, cellAt (rows d ! r) c) \<in> set (enumerate 0 (columnData d c))"
    using assms(2) columnData_nth[OF assms(2), of c] by (simp add: in_set_enumerate_eq)
  with assms(3) have "x \<in> set (piiColumn E (headers d ! c) (columnData d c))"
    by (force simp: piiColumn_def)
  then have "snd x \<in> set (fst (piiPass E d))"
    using header_in_enumerate[OF assms(1)] by (force simp: piiPass_issues)
  then show ?thesis by (simp add: issues_analyzeData)
qed

lemma pii_detections:
  assumes "nonEmpty v"
  shows "test emailPattern (toString E v) \<Longrightarrow>
           \<exists>msg. (''Email'', piiIssue h r v msg
                    ''Mask, encrypt, or remove email addresses for privacy compliance'')
                  \<in> set (piiCell E h r v)"
    and "test piiPhonePattern (stripPhone (toString E v)) \<Longrightarrow>
           \<exists>msg. (''Phone'', piiIssue h r v msg
                    ''Mask or encrypt phone numbers for privacy protection'')
                  \<in> set (piiCell E h r v)"
    and "test ssnPattern (toString E v) \<or> test nineDigits (toString E v) \<Longrightarrow>
           \<exists>msg. (''SSN'', piiIssue h r v msg
                    ''Immediately encrypt or remove SSN data - high compliance risk'')
                  \<in> set (piiCell E h r v)"
    and "test cardPattern (toString E v) \<Longrightarrow>
           \<exists>msg. (''Credit Card'', piiIssue h r v msg
                    ''Remove credit card data immediately - PCI compliance violation'')
                  \<in> set (piiCell E h r v)"
  using assms by (auto simp: piiCell_def Let_def)

lemma token_unusualCheck:
  assumes "t = ''null'' \<or> t = ''NULL'' \<or> t = ''N/A'' \<or> t = ''n/a''"
  shows "unusualCheck E h (Str t) = None"
proof -
  have "\<not> (length t > 3 \<and> repeatedChar t)" using assms by (elim disjE; hypsubst) code_simp+
  moreover have "\<not> length t > 4" using assms by auto
  moreover have "\<not> list_ex (\<lambda>pattern. includes_str (toLowerCase t) pattern) dummyPatterns"
    using assms by (elim disjE; hypsubst) code_simp+
  moreover have "\<not> (includes_str t ''test@'' \<or> includes_str t ''dummy@''
               \<or> includes_str t ''example@'' \<or> includes_str t ''@test.''
               \<or> includes_str t ''@dummy.'')"
    using assms by (elim disjE; hypsubst) code_simp+
  ultimately show ?thesis
    by (simp add: unusualCheck_def Let_def toString_def)
qed

lemma token_piiCell:
  assumes "t = ''null'' \<or> t = ''NULL'' \<or> t = ''N/A'' \<or> t = ''n/a''"
  shows "piiCell E h r (Str t) = []"
proof -
  have "\<not> test emailPattern t" using assms by (elim disjE; hypsubst) code_simp+
  moreover have "\<not> test piiPhonePattern (stripPhone t)"
    using assms by (elim disjE; hypsubst) code_simp+
  moreover have "\<not> test ssnPattern t" "\<not> test nineDigits t" "\<not> test cardPattern t"
    using assms by (elim disjE; hypsubst; code_simp)+
  ultimately show ?thesis
    by (simp add: piiCell_def Let_def toString_def)
qed

section \<open>Cells beyond the headers\<close>

lemma cellAt_take: "c < n \<Longrightarrow> cellAt (take n row) c = cellAt row c"
  by (simp add: cellAt_def)

lemma same_header_cells:
  assumes "map (take n) rs' = map (take n) rs"
  shows "length rs' = length rs"
    and "i < length rs \<Longrightarrow> c < n \<Longrightarrow> cellAt (rs' ! i) c = cellAt (rs ! i) c"
proof -
  show l: "length rs' = length rs" using assms by (metis length_map)
  assume i: "i < length rs" and c: "c < n"
  from assms i l have "take n (rs' ! i) = take n (rs ! i)"
    by (metis nth_map)
  then show "cellAt (rs' ! i) c = cellAt (rs ! i) c"
    using cellAt_take[OF c, of "rs' ! i"] cellAt_take[OF c, of "rs ! i"] by simp
qed

lemma columnData_header_cells:
  assumes "map (take n) (rows d') = map (take n) (rows d)" and "c < n"
  shows "columnData d' c = columnData d c"
proof (rule nth_equalityI)
  show "length (columnData d' c) = length (columnData d c)"
    using same_header_cells(1)[OF assms(1)] by simp
  fix i assume "i < length (columnData d' c)"
  then have i: "i < length (rows d)" "i < length (rows d')"
    using same_header_cells(1)[OF assms(1)] by simp_all
  show "columnData d' c ! i = columnData d c ! i"
    using same_header_cells(2)[OF assms(1) i(1) assms(2)] i by (simp add: columnData_nth)
qed

lemma findIndex_less: "findIndex P xs = Some k \<Longrightarrow> k < length xs"
  by (induction xs arbitrary: k) (auto split: if_splits)

lemma map_filter_cong_set:
  "(\<And>x. x \<in> set xs \<Longrightarrow> f x = g x) \<Longrightarrow> List.map_filter f xs = List.map_filter g xs"
  by (induction xs) (auto split: option.splits)

lemma shipColumn_header_cells:
  assumes "headers d' = headers d"
    and "map (take (length (headers d))) (rows d') = map (take (length (headers d))) (rows d)"
    and "length col = length (rows d)"
  shows "shipColumn E d' h col = shipColumn E d h col"
proof (cases "findIndex (\<lambda>h. includes_str (toLowerCase h) ''order''
                              \<and> includes_str (toLowerCase h) ''date'') (headers d)")
  case None
  then show ?thesis by (simp add: shipColumn_def assms(1))
next
  case (Some k)
  then have k: "k < length (headers d)" by (rule findIndex_less)
  have "List.map_filter
               (\<lambda>(i, shipDate).
                  let orderDate = cellAt (rows d' ! i) k
                  in if truthy shipDate \<and> truthy orderDate then
                       (let ship = dateParse E (toString E shipDate);
                            order = dateParse E (toString E orderDate)
                        in if \<not> isNaN ship \<and> \<not> isNaN order \<and> jlt ship order
                           then Some (shipIssue E h i shipDate orderDate)
                           else None)
                     else None)
               (enumerate 0 col)
      = List.map_filter
               (\<lambda>(i, shipDate).
                  let orderDate = cellAt (rows d ! i) k
                  in if truthy shipDate \<and> truthy orderDate then
                       (let ship = dateParse E (toString E shipDate);
                            order = dateParse E (toString E orderDate)
                        in if \<not> isNaN ship \<and> \<not> isNaN order \<and> jlt ship order
                           then Some (shipIssue E h i shipDate orderDate)
                           else None)
                     else None)
               (enumerate 0 col)"
  proof (rule map_filter_cong_set)
    fix x assume "x \<in> set (enumerate 0 col)"
    then have "fst x < length (rows d)" using assms(3) by (auto simp: in_set_enumerate_eq)
    then have "cellAt (rows d' ! fst x) k = cellAt (rows d ! fst x) k"
      using same_header_cells(2)[OF assms(2) _ k] by simp
    then show "(case x of (i, shipDate) \<Rightarrow>
                  let orderDate = cellAt (rows d' ! i) k
                  in if truthy shipDate \<and> truthy orderDate then
                       (let ship = dateParse E (toString E shipDate);
                            order = dateParse E (toString E orderDate)
                        in if \<not> isNaN ship \<and> \<not> isNaN order \<and> jlt ship order
                           then Some (shipIssue E h i shipDate orderDate)
                           else None)
                     else None)
          = (case x of (i, shipDate) \<Rightarrow>
                  let orderDate = cellAt (rows d ! i) k
                  in if truthy shipDate \<and> truthy orderDate then
                       (let ship = dateParse E (toString E shipDate);
                            order = dateParse E (toString E orderDate)
                        in if \<not> isNaN ship \<and> \<not> isNaN order \<and> jlt ship order
                           then Some (shipIssue E h i shipDate orderDate)
                           else None)
                     else None)"
      by (simp add: case_prod_unfold)
  qed
  then show ?thesis by (simp add: shipColumn_def assms(1) Some)
qed

lemma passes_header_cells:
  assumes "headers d' = headers d"
    and "map (take (length (headers d))) (rows d') = map (take (length (headers d))) (rows d)"
  shows "missingPass d' = missingPass d" and "formatPass E d' = formatPass E d"
    and "rangePass E d' = rangePass E d"
    and "inconsistentPass E d' types = inconsistentPass E d types"
    and "unusualPass E d' = unusualPass E d" and "piiPass E d' = piiPass E d"
    and "length (rows d') = length (rows d)"
proof -
  have col: "columnData d' c = columnData d c" if "c < length (headers d)" for c
    using assms(2) that by (rule columnData_header_cells)
  have idx: "fst x < length (headers d)" if "x \<in> set (enumerate 0 (headers d))" for x :: "nat \<times> string"
    using that by (auto simp: in_set_enumerate_eq)
  show "missingPass d' = missingPass d"
    unfolding missingPass_def assms(1)
    by (rule foldl_cong) (auto simp: col dest!: idx)
  show "formatPass E d' = formatPass E d"
    unfolding formatPass_def assms(1)
    by (rule foldl_cong) (auto simp: col dest!: idx)
  show "rangePass E d' = rangePass E d"
    unfolding rangePass_def assms(1)
    by (rule foldl_cong) (auto simp: col dest!: idx)
  show "unusualPass E d' = unusualPass E d"
    unfolding unusualPass_def assms(1)
    by (rule foldl_cong) (auto simp: col dest!: idx)
  show "piiPass E d' = piiPass E d"
    unfolding piiPass_def assms(1)
    by (rule foldl_cong) (auto simp: col dest!: idx)
  have ship: "shipColumn E d' h (columnData d c) = shipColumn E d h (columnData d c)" for h c
    using assms by (rule shipColumn_header_cells) simp
  show "inconsistentPass E d' types = inconsistentPass E d types"
    unfolding inconsistentPass_def assms(1)
    by (rule foldl_cong) (auto simp: col ship dest!: idx)
  show "length (rows d') = length (rows d)"
    using assms(2) by (rule same_header_cells(1))
qed

lemma report_header_cells:
  assumes "headers d' = headers d"
    and "map (take (length (headers d))) (rows d') = map (take (length (headers d))) (rows d)"
  shows "filter (\<lambda>i. type i \<noteq> ''duplicate'') (issues (analyzeData E d'))
           = filter (\<lambda>i. type i \<noteq> ''duplicate'') (issues (analyzeData E d))"
    and "missingValuesScore (report (analyzeData E d')) = missingValuesScore (report (analyzeData E d))"
    and "invalidFormatScore (report (analyzeData E d')) = invalidFormatScore (report (analyzeData E d))"
    and "valueRangeScore (report (analyzeData E d')) = valueRangeScore (report (analyzeData E d))"
    and "inconsistentValuesScore (report (analyzeData E d'))
           = inconsistentValuesScore (report (analyzeData E d))"
    and "unusualPatternsScore (report (analyzeData E d'))
           = unusualPatternsScore (report (analyzeData E d))"
    and "sensitiveDataScore (report (analyzeData E d')) = sensitiveDataScore (report (analyzeData E d))"
    and "dataTypes (report (analyzeData E d')) = dataTypes (report (analyzeData E d))"
    and "totalRows (report (analyzeData E d')) = totalRows (report (analyzeData E d))"
proof -
  note p = passes_header_cells[OF assms]
  have dup: "filter (\<lambda>i. type i \<noteq> ''duplicate'') (duplicatePass x) = []"
    "filter (\<lambda>i. type i = ''sensitive_data'') (duplicatePass x) = []" for x
    by (rule filter_none, simp add: type_duplicatePass)+
  show "filter (\<lambda>i. type i \<noteq> ''duplicate'') (issues (analyzeData E d'))
           = filter (\<lambda>i. type i \<noteq> ''duplicate'') (issues (analyzeData E d))"
    by (simp add: issues_analyzeData dup p)
  have sens: "filter (\<lambda>i. type i = ''sensitive_data'') (issues (analyzeData E d'))
           = filter (\<lambda>i. type i = ''sensitive_data'') (issues (analyzeData E d))"
    by (simp add: issues_analyzeData dup p)
  show "sensitiveDataScore (report (analyzeData E d')) = sensitiveDataScore (report (analyzeData E d))"
    by (simp only: sensitiveDataScore_analyzeData sens p(7))
  show "missingValuesScore (report (analyzeData E d')) = missingValuesScore (report (analyzeData E d))"
    by (simp only: missingValuesScore_analyzeData p assms(1))
  show "invalidFormatScore (report (analyzeData E d')) = invalidFormatScore (report (analyzeData E d))"
    "valueRangeScore (report (analyzeData E d')) = valueRangeScore (report (analyzeData E d))"
    "inconsistentValuesScore (report (analyzeData E d'))
           = inconsistentValuesScore (report (analyzeData E d))"
    "unusualPatternsScore (report (analyzeData E d'))
           = unusualPatternsScore (report (analyzeData E d))"
    by (simp_all only: penalty_scores_analyzeData p)
  show "dataTypes (report (analyzeData E d')) = dataTypes (report (analyzeData E d))"
    by (simp only: dataTypes_analyzeData p)
  show "totalRows (report (analyzeData E d')) = totalRows (report (analyzeData E d))"
    by (simp only: totalRows_analyzeData p)
qed

section \<open>The weighted sum in double arithmetic\<close>

lemma lit_weights:
  "lit 0.20 = Fin (3602879701896397 / 18014398509481984)"
  "lit 0.15 = Fin (5404319552844595 / 36028797018963968)"
  "lit 0.10 = Fin (3602879701896397 / 36028797018963968)"
  by code_simp+

lemma dbl_near:
  assumes "0 \<le> x" "x < 128"
  obtains t where "dbl x = Fin t" "\<bar>t - x\<bar> \<le> 1 / 2 ^ 47" "0 \<le> t"
proof (cases "x = 0")
  case True
  then show ?thesis using that[of 0] by simp
next
  case False
  then have x0: "0 < x" using assms(1) by simp
  have "x < 2 powi 7" using assms(2) by (simp add: power_int_def)
  then have "ilog2 x < 7" using x0 by (intro ilog2_less)
  then have "max (ilog2 x) (- 1022) - 52 \<le> - 46" by simp
  then have "ulp x \<le> 2 powi (- 46)" unfolding ulp_def by (intro power_int_increasing) auto
  also have "(2::rat) powi (- 46) = 1 / 2 ^ 46" by (simp add: power_int_minus inverse_eq_divide)
  finally have "ulp x / 2 \<le> 1 / 2 ^ 47" by simp
  then have e: "\<bar>rnd x - x\<bar> \<le> 1 / 2 ^ 47" using rnd_err[of x] by linarith
  have "(128::rat) = 2 powi 7" by (simp add: power_int_def)
  also have "\<dots> < 2 powi 1023" by (intro power_int_strict_increasing) auto
  finally have "x < 2 powi 1023" using assms(2) by simp
  then have "dbl x = Fin (rnd x)" using x0 by (intro dbl_pos)
  moreover have "0 \<le> rnd x" using assms(1) by (rule rnd_nonneg)
  ultimately show ?thesis using that e by blast
qed

lemma weight_product:
  assumes "a \<le> 100" and "\<bar>W - w\<bar> \<le> 1 / 2 ^ 56" and "0 \<le> W" and "W \<le> 1"
  obtains t where "jmul (num a) (Fin W) = Fin t" "\<bar>t - of_nat a * w\<bar> \<le> 1 / 2 ^ 46" "0 \<le> t"
proof -
  define x where "x = of_nat a * W"
  have a: "(0::rat) \<le> of_nat a" "(of_nat a :: rat) \<le> 100" using assms(1) by simp_all
  have x0: "0 \<le> x" unfolding x_def using a(1) assms(3) by simp
  have "x \<le> 100 * 1" unfolding x_def using a assms(3,4) by (intro mult_mono) simp_all
  then have "x < 128" by simp
  with x0 obtain t where t: "dbl x = Fin t" "\<bar>t - x\<bar> \<le> 1 / 2 ^ 47" "0 \<le> t"
    by (rule dbl_near)
  have "x - of_nat a * w = of_nat a * (W - w)" by (simp add: x_def algebra_simps)
  then have "\<bar>x - of_nat a * w\<bar> = of_nat a * \<bar>W - w\<bar>" by (simp add: abs_mult)
  also have "\<dots> \<le> 100 * (1 / 2 ^ 56)" using a assms(2) by (intro mult_mono) simp_all
  also have "\<dots> \<le> (1 / 2 ^ 47 :: rat)" by simp
  finally have "\<bar>x - of_nat a * w\<bar> \<le> 1 / 2 ^ 47" .
  with t(2) have "\<bar>t - of_nat a * w\<bar> \<le> 1 / 2 ^ 47 + 1 / 2 ^ 47" by linarith
  also have "\<dots> = (1 / 2 ^ 46 :: rat)" by simp
  finally have "\<bar>t - of_nat a * w\<bar> \<le> 1 / 2 ^ 46" .
  moreover have "jmul (num a) (Fin W) = Fin t" using t(1) by (simp add: num_def x_def)
  ultimately show ?thesis using that t(3) by blast
qed

lemma sum_near:
  assumes "\<bar>x - X\<bar> \<le> e" and "\<bar>y - Y\<bar> \<le> 1 / 2 ^ 46" and "0 \<le> x" and "0 \<le> y"
    and "X + Y \<le> 100" and "e \<le> 1"
  obtains t where "jadd (Fin x) (Fin y) = Fin t" "\<bar>t - (X + Y)\<bar> \<le> e + 1 / 2 ^ 45" "0 \<le> t"
proof -
  have "(1 / 2 ^ 46 :: rat) \<le> 1" by simp
  then have "x + y < 128" using assms(1,2,5,6) by linarith
  moreover have "0 \<le> x + y" using assms(3,4) by simp
  ultimately obtain t where t: "dbl (x + y) = Fin t" "\<bar>t - (x + y)\<bar> \<le> 1 / 2 ^ 47" "0 \<le> t"
    using dbl_near by blast
  have "(1 / 2 ^ 46 :: rat) + 1 / 2 ^ 47 \<le> 1 / 2 ^ 45" by simp
  then have "\<bar>t - (X + Y)\<bar> \<le> e + 1 / 2 ^ 45" using t(2) assms(1,2) by linarith
  then show ?thesis using that t(1,3) by simp
qed

lemma weighted_near:
  fixes a1 a2 a3 a4 a5 a6 a7 :: nat
  assumes "a1 \<le> 100" "a2 \<le> 100" "a3 \<le> 100" "a4 \<le> 100" "a5 \<le> 100" "a6 \<le> 100" "a7 \<le> 100"
  obtains t where
    "jadd (jadd (jadd (jadd (jadd (jadd
          (jmul (num a1) (lit 0.20))
          (jmul (num a2) (lit 0.15)))
          (jmul (num a3) (lit 0.15)))
          (jmul (num a4) (lit 0.15)))
          (jmul (num a5) (lit 0.10)))
          (jmul (num a6) (lit 0.10)))
          (jmul (num a7) (lit 0.15)) = Fin t"
    "\<bar>t - of_nat (20 * a1 + 15 * a2 + 15 * a3 + 15 * a4 + 10 * a5 + 10 * a6 + 15 * a7) / 100\<bar>
       \<le> 1 / 2 ^ 42"
proof -
  define W20 :: rat where "W20 = 3602879701896397 / 18014398509481984"
  define W15 :: rat where "W15 = 5404319552844595 / 36028797018963968"
  define W10 :: rat where "W10 = 3602879701896397 / 36028797018963968"
  have w: "\<bar>W20 - 1 / 5\<bar> \<le> 1 / 2 ^ 56" "0 \<le> W20" "W20 \<le> 1"
    "\<bar>W15 - 3 / 20\<bar> \<le> 1 / 2 ^ 56" "0 \<le> W15" "W15 \<le> 1"
    "\<bar>W10 - 1 / 10\<bar> \<le> 1 / 2 ^ 56" "0 \<le> W10" "W10 \<le> 1"
    by (simp_all add: W20_def W15_def W10_def)
  have l: "lit 0.20 = Fin W20" "lit 0.15 = Fin W15" "lit 0.10 = Fin W10"
    by (simp_all only: lit_weights W20_def W15_def W10_def)
  have b: "(of_nat a1 :: rat) \<le> 100" "(of_nat a2 :: rat) \<le> 100" "(of_nat a3 :: rat) \<le> 100"
    "(of_nat a4 :: rat) \<le> 100" "(of_nat a5 :: rat) \<le> 100" "(of_nat a6 :: rat) \<le> 100"
    "(of_nat a7 :: rat) \<le> 100"
    using assms by simp_all
  have n: "(0::rat) \<le> of_nat a1" "(0::rat) \<le> of_nat a2" "(0::rat) \<le> of_nat a3"
    "(0::rat) \<le> of_nat a4" "(0::rat) \<le> of_nat a5" "(0::rat) \<le> of_nat a6" "(0::rat) \<le> of_nat a7"
    by simp_all
  obtain p1 where p1: "jmul (num a1) (Fin W20) = Fin p1" "\<bar>p1 - of_nat a1 * (1 / 5)\<bar> \<le> 1 / 2 ^ 46" "0 \<le> p1"
    using weight_product[OF assms(1) w(1,2,3)] by blast
  obtain p2 where p2: "jmul (num a2) (Fin W15) = Fin p2" "\<bar>p2 - of_nat a2 * (3 / 20)\<bar> \<le> 1 / 2 ^ 46" "0 \<le> p2"
    using weight_product[OF assms(2) w(4,5,6)] by blast
  obtain p3 where p3: "jmul (num a3) (Fin W15) = Fin p3" "\<bar>p3 - of_nat a3 * (3 / 20)\<bar> \<le> 1 / 2 ^ 46" "0 \<le> p3"
    using weight_product[OF assms(3) w(4,5,6)] by blast
  obtain p4 where p4: "jmul (num a4) (Fin W15) = Fin p4" "\<bar>p4 - of_nat a4 * (3 / 20)\<bar> \<le> 1 / 2 ^ 46" "0 \<le> p4"
    using weight_product[OF assms(4) w(4,5,6)] by blast
  obtain p5 where p5: "jmul (num a5) (Fin W10) = Fin p5" "\<bar>p5 - of_nat a5 * (1 / 10)\<bar> \<le> 1 / 2 ^ 46" "0 \<le> p5"
    using weight_product[OF assms(5) w(7,8,9)] by blast
  obtain p6 where p6: "jmul (num a6) (Fin W10) = Fin p6" "\<bar>p6 - of_nat a6 * (1 / 10)\<bar> \<le> 1 / 2 ^ 46" "0 \<le> p6"
    using weight_product[OF assms(6) w(7,8,9)] by blast
  obtain p7 where p7: "jmul (num a7) (Fin W15) = Fin p7" "\<bar>p7 - of_nat a7 * (3 / 20)\<bar> \<le> 1 / 2 ^ 46" "0 \<le> p7"
    using weight_product[OF assms(7) w(4,5,6)] by blast
  have e1: "(1 / 2 ^ 46 :: rat) \<le> 1" by simp
  have x2: "of_nat a1 * (1 / 5) + of_nat a2 * (3 / 20) \<le> (100::rat)" using b n by linarith
  obtain s2 where s2: "jadd (Fin p1) (Fin p2) = Fin s2"
    "\<bar>s2 - (of_nat a1 * (1 / 5) + of_nat a2 * (3 / 20))\<bar> \<le> 1 / 2 ^ 46 + 1 / 2 ^ 45" "0 \<le> s2"
    using sum_near[OF p1(2) p2(2) p1(3) p2(3) x2 e1] by blast
  have e2: "(1 / 2 ^ 46 + 1 / 2 ^ 45 :: rat) \<le> 1" by simp
  have x3: "of_nat a1 * (1 / 5) + of_nat a2 * (3 / 20) + of_nat a3 * (3 / 20) \<le> (100::rat)"
    using b n by linarith
  obtain s3 where s3: "jadd (Fin s2) (Fin p3) = Fin s3"
    "\<bar>s3 - (of_nat a1 * (1 / 5) + of_nat a2 * (3 / 20) + of_nat a3 * (3 / 20))\<bar>
       \<le> 1 / 2 ^ 46 + 1 / 2 ^ 45 + 1 / 2 ^ 45" "0 \<le> s3"
    using sum_near[OF s2(2) p3(2) s2(3) p3(3) x3 e2] by blast
  have e3: "(1 / 2 ^ 46 + 1 / 2 ^ 45 + 1 / 2 ^ 45 :: rat) \<le> 1" by simp
  have x4: "of_nat a1 * (1 / 5) + of_nat a2 * (3 / 20) + of_nat a3 * (3 / 20)
            + of_nat a4 * (3 / 20) \<le> (100::rat)"
    using b n by linarith
  obtain s4 where s4: "jadd (Fin s3) (Fin p4) = Fin s4"
    "\<bar>s4 - (of_nat a1 * (1 / 5) + of_nat a2 * (3 / 20) + of_nat a3 * (3 / 20)
            + of_nat a4 * (3 / 20))\<bar>
       \<le> 1 / 2 ^ 46 + 1 / 2 ^ 45 + 1 / 2 ^ 45 + 1 / 2 ^ 45" "0 \<le> s4"
    using sum_near[OF s3(2) p4(2) s3(3) p4(3) x4 e3] by blast
  have e4: "(1 / 2 ^ 46 + 1 / 2 ^ 45 + 1 / 2 ^ 45 + 1 / 2 ^ 45 :: rat) \<le> 1" by simp
  have x5: "of_nat a1 * (1 / 5) + of_nat a2 * (3 / 20) + of_nat a3 * (3 / 20)
            + of_nat a4 * (3 / 20) + of_nat a5 * (1 / 10) \<le> (100::rat)"
    using b n by linarith
  obtain s5 where s5: "jadd (Fin s4) (Fin p5) = Fin s5"
    "\<bar>s5 - (of_nat a1 * (1 / 5) + of_nat a2 * (3 / 20) + of_nat a3 * (3 / 20)
            + of_nat a4 * (3 / 20) + of_nat a5 * (1 / 10))\<bar>
       \<le> 1 / 2 ^ 46 + 1 / 2 ^ 45 + 1 / 2 ^ 45 + 1 / 2 ^ 45 + 1 / 2 ^ 45" "0 \<le> s5"
    using sum_near[OF s4(2) p5(2) s4(3) p5(3) x5 e4] by blast
  have e5: "(1 / 2 ^ 46 + 1 / 2 ^ 45 + 1 / 2 ^ 45 + 1 / 2 ^ 45 + 1 / 2 ^ 45 :: rat) \<le> 1" by simp
  have x6: "of_nat a1 * (1 / 5) + of_nat a2 * (3 / 20) + of_nat a3 * (3 / 20)
            + of_nat a4 * (3 / 20) + of_nat a5 * (1 / 10) + of_nat a6 * (1 / 10) \<le> (100::rat)"
    using b n by linarith
  obtain s6 where s6: "jadd (Fin s5) (Fin p6) = Fin s6"
    "\<bar>s6 - (of_nat a1 * (1 / 5) + of_nat a2 * (3 / 20) + of_nat a3 * (3 / 20)
            + of_nat a4 * (3 / 20) + of_nat a5 * (1 / 10) + of_nat a6 * (1 / 10))\<bar>
       \<le> 1 / 2 ^ 46 + 1 / 2 ^ 45 + 1 / 2 ^ 45 + 1 / 2 ^ 45 + 1 / 2 ^ 45 + 1 / 2 ^ 45" "0 \<le> s6"
    using sum_near[OF s5(2) p6(2) s5(3) p6(3) x6 e5] by blast
  have e6: "(1 / 2 ^ 46 + 1 / 2 ^ 45 + 1 / 2 ^ 45 + 1 / 2 ^ 45 + 1 / 2 ^ 45 + 1 / 2 ^ 45 :: rat) \<le> 1"
    by simp
  have x7: "of_nat a1 * (1 / 5) + of_nat a2 * (3 / 20) + of_nat a3 * (3 / 20)
            + of_nat a4 * (3 / 20) + of_nat a5 * (1 / 10) + of_nat a6 * (1 / 10)
            + of_nat a7 * (3 / 20) \<le> (100::rat)"
    using b n by linarith
  obtain s7 where s7: "jadd (Fin s6) (Fin p7) = Fin s7"
    "\<bar>s7 - (of_nat a1 * (1 / 5) + of_nat a2 * (3 / 20) + of_nat a3 * (3 / 20)
            + of_nat a4 * (3 / 20) + of_nat a5 * (1 / 10) + of_nat a6 * (1 / 10)
            + of_nat a7 * (3 / 20))\<bar>
       \<le> 1 / 2 ^ 46 + 1 / 2 ^ 45 + 1 / 2 ^ 45 + 1 / 2 ^ 45 + 1 / 2 ^ 45 + 1 / 2 ^ 45 + 1 / 2 ^ 45"
    using sum_near[OF s6(2) p7(2) s6(3) p7(3) x7 e6] by blast
  have ex: "of_nat a1 * (1 / 5) + of_nat a2 * (3 / 20) + of_nat a3 * (3 / 20)
            + of_nat a4 * (3 / 20) + of_nat a5 * (1 / 10) + of_nat a6 * (1 / 10)
            + of_nat a7 * (3 / 20)
          = (of_nat (20 * a1 + 15 * a2 + 15 * a3 + 15 * a4 + 10 * a5 + 10 * a6 + 15 * a7) / 100 :: rat)"
    by simp
  have "(1 / 2 ^ 46 + 1 / 2 ^ 45 + 1 / 2 ^ 45 + 1 / 2 ^ 45 + 1 / 2 ^ 45 + 1 / 2 ^ 45 + 1 / 2 ^ 45 :: rat)
          \<le> 1 / 2 ^ 42" by simp
  with s7(2) have
    "\<bar>s7 - of_nat (20 * a1 + 15 * a2 + 15 * a3 + 15 * a4 + 10 * a5 + 10 * a6 + 15 * a7) / 100\<bar>
       \<le> 1 / 2 ^ 42"
    unfolding ex by linarith
  moreover have "jadd (jadd (jadd (jadd (jadd (jadd
          (jmul (num a1) (lit 0.20))
          (jmul (num a2) (lit 0.15)))
          (jmul (num a3) (lit 0.15)))
          (jmul (num a4) (lit 0.15)))
          (jmul (num a5) (lit 0.10)))
          (jmul (num a6) (lit 0.10)))
          (jmul (num a7) (lit 0.15)) = Fin s7"
    by (simp only: l p1(1) p2(1) p3(1) p4(1) p5(1) p6(1) p7(1) s2(1) s3(1) s4(1) s5(1) s6(1) s7(1))
  ultimately show ?thesis using that by blast
qed

lemma weighted_round:
  fixes a1 a2 a3 a4 a5 a6 a7 :: nat
  assumes "a1 \<le> 100" "a2 \<le> 100" "a3 \<le> 100" "a4 \<le> 100" "a5 \<le> 100" "a6 \<le> 100" "a7 \<le> 100"
    and S: "S = 20 * a1 + 15 * a2 + 15 * a3 + 15 * a4 + 10 * a5 + 10 * a6 + 15 * a7"
  shows "S mod 100 \<noteq> 50 \<Longrightarrow>
           weightedScore (num a1) (num a2) (num a3) (num a4) (num a5) (num a6) (num a7)
             = Fin (of_int \<lfloor>of_nat S / 100 + 1 / 2 :: rat\<rfloor>)"
    and "S mod 100 = 50 \<Longrightarrow>
           weightedScore (num a1) (num a2) (num a3) (num a4) (num a5) (num a6) (num a7)
             = Fin (of_int \<lfloor>of_nat S / 100 + 1 / 2 :: rat\<rfloor>)
           \<or> weightedScore (num a1) (num a2) (num a3) (num a4) (num a5) (num a6) (num a7)
             = Fin (of_int (\<lfloor>of_nat S / 100 + 1 / 2 :: rat\<rfloor> - 1))"
proof -
  obtain t where t: "jadd (jadd (jadd (jadd (jadd (jadd
          (jmul (num a1) (lit 0.20))
          (jmul (num a2) (lit 0.15)))
          (jmul (num a3) (lit 0.15)))
          (jmul (num a4) (lit 0.15)))
          (jmul (num a5) (lit 0.10)))
          (jmul (num a6) (lit 0.10)))
          (jmul (num a7) (lit 0.15)) = Fin t"
    and e: "\<bar>t - of_nat S / 100\<bar> \<le> 1 / 2 ^ 42"
    using weighted_near[OF assms(1-7)] unfolding S by blast
  have w: "weightedScore (num a1) (num a2) (num a3) (num a4) (num a5) (num a6) (num a7)
             = Fin (of_int \<lfloor>t + 1 / 2\<rfloor>)"
    by (simp only: weightedScore_def t Math_round_def jsnum.case)
  define q where "q = S div 100"
  define p where "p = S mod 100"
  define Q :: rat where "Q = of_nat q"
  define P :: rat where "P = of_nat p"
  define y :: rat where "y = of_nat S / 100"
  have "S = 100 * q + p" by (simp add: q_def p_def)
  then have "(of_nat S :: rat) = of_nat (100 * q + p)" by simp
  then have x: "y = Q + P / 100" by (simp add: y_def Q_def P_def)
  have Q: "of_int (int q) = Q" "of_int (int q + 1) = Q + 1" "of_int (int q + 2) = Q + 2"
    by (simp_all add: Q_def)
  have e': "\<bar>t - y\<bar> \<le> 1 / 2 ^ 42" using e by (simp add: y_def)
  have "S mod 5 = 0" unfolding S by presburger
  then have "p mod 5 = 0" unfolding p_def by presburger
  moreover have "p < 100" by (simp add: p_def)
  ultimately have c: "p \<le> 45 \<or> p = 50 \<or> (55 \<le> p \<and> p \<le> 95)" by presburger
  have eps: "(1 / 2 ^ 42 :: rat) < 1 / 100" by simp
  have P0: "0 \<le> P" by (simp add: P_def)
  {
    assume "S mod 100 \<noteq> 50"
    then have "p \<le> 45 \<or> (55 \<le> p \<and> p \<le> 95)" using c by (simp add: p_def)
    then have "\<lfloor>t + 1 / 2\<rfloor> = \<lfloor>y + 1 / 2\<rfloor>"
    proof
      assume "p \<le> 45"
      then have "(of_nat p :: rat) \<le> of_nat 45" using of_nat_le_iff by blast
      then have p: "P \<le> 45" by (simp add: P_def)
      have "\<lfloor>y + 1 / 2\<rfloor> = int q"
      proof (rule floor_unique)
        show "of_int (int q) \<le> y + 1 / 2" unfolding Q(1) using x p P0 by linarith
        show "y + 1 / 2 < of_int (int q) + 1" unfolding Q(1) using x p P0 by linarith
      qed
      moreover have "\<lfloor>t + 1 / 2\<rfloor> = int q"
      proof (rule floor_unique)
        show "of_int (int q) \<le> t + 1 / 2" unfolding Q(1) using e' x p P0 eps by linarith
        show "t + 1 / 2 < of_int (int q) + 1" unfolding Q(1) using e' x p P0 eps by linarith
      qed
      ultimately show ?thesis by simp
    next
      assume "55 \<le> p \<and> p \<le> 95"
      then have "(of_nat 55 :: rat) \<le> of_nat p" "(of_nat p :: rat) \<le> of_nat 95"
        using of_nat_le_iff by blast+
      then have p: "55 \<le> P" "P \<le> 95" by (simp_all add: P_def)
      have "\<lfloor>y + 1 / 2\<rfloor> = int q + 1"
      proof (rule floor_unique)
        show "of_int (int q + 1) \<le> y + 1 / 2" unfolding Q(2) using x p by linarith
        show "y + 1 / 2 < of_int (int q + 1) + 1" unfolding Q(2) using x p by linarith
      qed
      moreover have "\<lfloor>t + 1 / 2\<rfloor> = int q + 1"
      proof (rule floor_unique)
        show "of_int (int q + 1) \<le> t + 1 / 2" unfolding Q(2) using e' x p eps by linarith
        show "t + 1 / 2 < of_int (int q + 1) + 1" unfolding Q(2) using e' x p eps by linarith
      qed
      ultimately show ?thesis by simp
    qed
    then show "weightedScore (num a1) (num a2) (num a3) (num a4) (num a5) (num a6) (num a7)
             = Fin (of_int \<lfloor>of_nat S / 100 + 1 / 2 :: rat\<rfloor>)"
      unfolding w y_def by simp
  }
  {
    assume "S mod 100 = 50"
    then have "(of_nat p :: rat) = of_nat 50" by (simp add: p_def)
    then have p: "P = 50" by (simp add: P_def)
    have f: "\<lfloor>y + 1 / 2\<rfloor> = int q + 1"
    proof (rule floor_unique)
      show "of_int (int q + 1) \<le> y + 1 / 2" unfolding Q(2) using x p by linarith
      show "y + 1 / 2 < of_int (int q + 1) + 1" unfolding Q(2) using x p by linarith
    qed
    have "of_int (int q) \<le> t + 1 / 2" unfolding Q(1) using e' x p eps by linarith
    then have lo: "int q \<le> \<lfloor>t + 1 / 2\<rfloor>" by (simp only: le_floor_iff)
    have "t + 1 / 2 < of_int (int q + 2)" unfolding Q(3) using e' x p eps by linarith
    then have hi: "\<lfloor>t + 1 / 2\<rfloor> < int q + 2" by (simp only: floor_less_iff)
    from lo hi have "\<lfloor>t + 1 / 2\<rfloor> = int q + 1 \<or> \<lfloor>t + 1 / 2\<rfloor> = int q" by linarith
    then show "weightedScore (num a1) (num a2) (num a3) (num a4) (num a5) (num a6) (num a7)
             = Fin (of_int \<lfloor>of_nat S / 100 + 1 / 2 :: rat\<rfloor>)
           \<or> weightedScore (num a1) (num a2) (num a3) (num a4) (num a5) (num a6) (num a7)
             = Fin (of_int (\<lfloor>of_nat S / 100 + 1 / 2 :: rat\<rfloor> - 1))"
      unfolding w using f unfolding y_def by auto
  }
qed

lemma sensitive_issues_analyzeData:
  "filter (\<lambda>i. type i = ''sensitive_data'') (issues (analyzeData E d)) = fst (piiPass E d)"
proof -
  have "filter (\<lambda>i. type i = ''sensitive_data'') (fst (missingPass d)) = []"
    by (rule filter_none) (simp add: type_missingPass)
  moreover have "filter (\<lambda>i. type i = ''sensitive_data'') (duplicatePass d) = []"
    by (rule filter_none) (simp add: type_duplicatePass)
  moreover have "filter (\<lambda>i. type i = ''sensitive_data'') (fst (formatPass E d)) = []"
    by (rule filter_none) (simp add: type_formatPass)
  moreover have "filter (\<lambda>i. type i = ''sensitive_data'') (fst (rangePass E d)) = []"
    by (rule filter_none) (simp add: type_rangePass)
  moreover have "filter (\<lambda>i. type i = ''sensitive_data'')
                   (fst (inconsistentPass E d (fst (snd (formatPass E d))))) = []"
    by (rule filter_none) (simp add: type_inconsistentPass)
  moreover have "filter (\<lambda>i. type i = ''sensitive_data'') (fst (unusualPass E d)) = []"
    by (rule filter_none) (simp add: type_unusualPass)
  moreover have "filter (\<lambda>i. type i = ''sensitive_data'') (fst (piiPass E d)) = fst (piiPass E d)"
    by (rule filter_all) (simp add: type_piiPass)
  ultimately show ?thesis by (simp add: issues_analyzeData)
qed

section \<open>The cleaning engine: what a step changes\<close>

lemma cellAt_setAt: "cellAt (setAt row i v) c = (if c = i then v else cellAt row c)"
  by (auto simp: cellAt_def setAt_def nth_append)

lemma isBlank_isMissing: "isBlank v \<Longrightarrow> isMissing v"
  by (auto simp: isBlank_def isMissing_def)

lemma enumerate_nth0: "i < length xs \<Longrightarrow> enumerate 0 xs ! i = (i, xs ! i)"
  by (simp add: nth_enumerate_eq)

lemma fillMissing_headers: "headers (fillMissing step d) = headers d"
  by (simp add: fillMissing_def split: option.splits prod.splits)

lemma fillMissing_filename: "filename (fillMissing step d) = filename d"
  by (simp add: fillMissing_def split: option.splits prod.splits)

lemma fillMissing_length: "length (rows (fillMissing step d)) = length (rows d)"
  by (simp add: fillMissing_def split: option.splits prod.splits)

lemma fillMissing_cell:
  assumes "r < length (rows d)"
  shows "cellAt (rows (fillMissing step d) ! r) c =
    (case (columnOf (operation step), opvalue (operation step)) of
       (Some col, Some v) \<Rightarrow>
         if indexOf (headers d) col = Some c \<and> shouldFill step r \<and> isBlank (cellAt (rows d ! r) c)
         then v else cellAt (rows d ! r) c
     | _ \<Rightarrow> cellAt (rows d ! r) c)"
  using assms
  by (auto simp: fillMissing_def enumerate_nth0 cellAt_setAt split: option.splits prod.splits)

text \<open>
  C7. A fill-missing step with a non-empty \<open>selectedRows\<close> leaves the headers, the file
  name and the number of rows alone, and changes a cell only if its row is selected, it
  lies in the step's column, it was an empty-marker, and it now holds the fill value.
  Conversely every selected cell of that column that was the empty string, \<open>null\<close> or
  \<open>undefined\<close> holds the fill value afterwards.
\<close>

theorem fill_missing_selected_rows_frame:
  assumes "optype (operation step) = ''fill_missing''"
    and "selectedRows step = Some S" and "S \<noteq> {}"
  shows "headers (applyStep d step) = headers d
       \<and> filename (applyStep d step) = filename d
       \<and> length (rows (applyStep d step)) = length (rows d)
       \<and> (\<forall>r c. r < length (rows d) \<longrightarrow>
              cellAt (rows (applyStep d step) ! r) c \<noteq> cellAt (rows d ! r) c \<longrightarrow>
                r \<in> S \<and> isMissing (cellAt (rows d ! r) c)
                \<and> (\<exists>col. opcolumn (operation step) = Some col \<and> indexOf (headers d) col = Some c)
                \<and> opvalue (operation step) = Some (cellAt (rows (applyStep d step) ! r) c))
       \<and> (\<forall>r c col v. r < length (rows d) \<longrightarrow> r \<in> S \<longrightarrow> isBlank (cellAt (rows d ! r) c) \<longrightarrow>
              opcolumn (operation step) = Some col \<longrightarrow> col \<noteq> [] \<longrightarrow>
              indexOf (headers d) col = Some c \<longrightarrow> opvalue (operation step) = Some v \<longrightarrow>
                cellAt (rows (applyStep d step) ! r) c = v)"
proof -
  have a: "applyStep d step = fillMissing step d"
    using assms(1) by (simp add: applyStep_def)
  have s: "\<And>r. shouldFill step r = (r \<in> S)"
    using assms(2,3) by (simp add: shouldFill_def)
  show ?thesis
    unfolding a
    by (auto simp: fillMissing_headers fillMissing_filename fillMissing_length fillMissing_cell s
        columnOf_def isBlank_isMissing split: option.splits if_splits)
qed

theorem fill_missing_selected_rows_frame_witness:
  "optype (operation sampleFill) = ''fill_missing''
   \<and> selectedRows sampleFill = Some {0} \<and> ({0} :: nat set) \<noteq> {}
   \<and> cellAt (rows (applyStep sampleCities sampleFill) ! 1) 1 = Str ''''
   \<and> cellAt (rows (applyStep sampleCities sampleFill) ! 0) 1 = Str ''Unknown''"
proof -
  have h1: "optype (operation sampleFill) = ''fill_missing''" by (simp add: sampleFill_def)
  have h2: "selectedRows sampleFill = Some {0}" by (simp add: sampleFill_def)
  have h3: "({0} :: nat set) \<noteq> {}" by simp
  note t = fill_missing_selected_rows_frame [OF h1 h2 h3, of sampleCities]
  have old1: "cellAt (rows sampleCities ! 1) 1 = Str ''''"
    and old0: "isBlank (cellAt (rows sampleCities ! 0) 1)"
    and len: "1 < length (rows sampleCities)" "0 < length (rows sampleCities)"
    and col: "opcolumn (operation sampleFill) = Some ''city''" "''city'' \<noteq> []"
      "indexOf (headers sampleCities) ''city'' = Some 1"
      "opvalue (operation sampleFill) = Some (Str ''Unknown'')"
    by (simp_all add: sampleCities_def sampleFill_def cellAt_def isBlank_def indexOf_def)
  have "cellAt (rows (applyStep sampleCities sampleFill) ! 1) 1 = cellAt (rows sampleCities ! 1) 1"
    using t len(1) by fastforce
  moreover have "cellAt (rows (applyStep sampleCities sampleFill) ! 0) 1 = Str ''Unknown''"
    using t len(2) old0 col by blast
  ultimately show ?thesis using h1 h2 h3 old1 by simp
qed

text \<open>
  C8. When no step is flagged as applied, the cleaning engine returns the headers and the
  rows of its input; only the file name gets the prefix \<open>cleaned_\<close>.
\<close>

theorem no_applied_step_is_noop:
  assumes "\<forall>s \<in> set cleaningSteps. \<not> applied s"
  shows "headers (applyAllSelectedSteps d cleaningSteps) = headers d
       \<and> rows (applyAllSelectedSteps d cleaningSteps) = rows d
       \<and> filename (applyAllSelectedSteps d cleaningSteps) = ''cleaned_'' @ filename d"
proof -
  have "filter applied cleaningSteps = []" using assms by (simp add: filter_empty_conv)
  then show ?thesis by (simp add: applyAllSelectedSteps_def)
qed

theorem no_applied_step_is_noop_witness:
  "\<not> applied sampleDedup
   \<and> headers (applyAllSelectedSteps sampleCities [sampleDedup]) = headers sampleCities
   \<and> rows (applyAllSelectedSteps sampleCities [sampleDedup]) = rows sampleCities
   \<and> filename (applyAllSelectedSteps sampleCities [sampleDedup]) = ''cleaned_cities.csv''"
proof -
  have h: "\<forall>s \<in> set [sampleDedup]. \<not> applied s" by (simp add: sampleDedup_def)
  show ?thesis
    using h no_applied_step_is_noop [OF h, of sampleCities] by (simp add: sampleCities_def)
qed

section \<open>The scores\<close>

lemma weighted_100:
  "weightedScore (Fin 100) (Fin 100) (Fin 100) (Fin 100) (Fin 100) (Fin 100) (Fin 100) = Fin 100"
  by code_simp

lemma weighted_0:
  "weightedScore (Fin 0) (Fin 0) (Fin 0) (Fin 0) (Fin 0) (Fin 0) (Fin 0) = Fin 0"
  by code_simp

lemma sampleNames_counts:
  "length (rows sampleNames) = 2" "length (headers sampleNames) = 1"
  "total (snd (missingPass sampleNames)) = num 0"
  "length (duplicateRowIndices sampleNames) = 0"
  "total (snd (snd (formatPass E sampleNames))) = num 0"
  "total (snd (rangePass E sampleNames)) = num 0"
  "total (snd (inconsistentPass E sampleNames (fst (snd (formatPass E sampleNames))))) = num 1"
  "total (snd (unusualPass E sampleNames)) = num 0"
  "length (fst (piiPass E sampleNames)) = 0"
  by code_simp+

lemma sampleNames_ratios:
  "ratioScore (jmul (num 2) (num 1)) (num 0) = num 100"
  "ratioScore (num 2) (num 0) = num 100"
  "penaltyScore (num 0) (num 2) = num 100"
  "penaltyScore (num 1) (num 2) = num 50"
  by code_simp+

lemma sampleNames_scores:
  "missingValuesScore (report (analyzeData E sampleNames)) = num 100"
  "duplicatesScore (report (analyzeData E sampleNames)) = num 100"
  "invalidFormatScore (report (analyzeData E sampleNames)) = num 100"
  "valueRangeScore (report (analyzeData E sampleNames)) = num 100"
  "inconsistentValuesScore (report (analyzeData E sampleNames)) = num 50"
  "unusualPatternsScore (report (analyzeData E sampleNames)) = num 100"
  "sensitiveDataScore (report (analyzeData E sampleNames)) = num 100"
proof -
  show "missingValuesScore (report (analyzeData E sampleNames)) = num 100"
    by (simp only: missingValuesScore_analyzeData sampleNames_counts sampleNames_ratios)
  show "duplicatesScore (report (analyzeData E sampleNames)) = num 100"
    by (simp only: duplicatesScore_analyzeData sampleNames_counts sampleNames_ratios)
  show "invalidFormatScore (report (analyzeData E sampleNames)) = num 100"
    "valueRangeScore (report (analyzeData E sampleNames)) = num 100"
    "inconsistentValuesScore (report (analyzeData E sampleNames)) = num 50"
    "unusualPatternsScore (report (analyzeData E sampleNames)) = num 100"
    by (simp_all only: penalty_scores_analyzeData sampleNames_counts sampleNames_ratios)
  show "sensitiveDataScore (report (analyzeData E sampleNames)) = num 100"
    by (simp only: sensitiveDataScore_analyzeData sensitive_issues_analyzeData
          sampleNames_counts) (simp add: num_def)
qed

text \<open>
  C1. For every dataset the overall score is the weighted sum of the seven dimension
  scores, with the weights 0.20, 0.15, 0.15, 0.15, 0.10, 0.10 and 0.15, computed in
  double arithmetic from left to right and then rounded. For scores that are integers
  from 0 to 100 this is the exact weighted sum rounded to the nearest integer, a half
  going up, whenever the exact sum is not an integer and a half; when it is, the result
  is that integer or the one below it, as the doubles fall. Seven scores of 100 give 100,
  and seven scores of 0 give 0.
\<close>

theorem overall_score_is_weighted_sum:
  "overallScore (report (analyzeData E d)) =
     Math_round
       (jadd (jadd (jadd (jadd (jadd (jadd
          (jmul (missingValuesScore (report (analyzeData E d))) (lit 0.20))
          (jmul (duplicatesScore (report (analyzeData E d))) (lit 0.15)))
          (jmul (invalidFormatScore (report (analyzeData E d))) (lit 0.15)))
          (jmul (valueRangeScore (report (analyzeData E d))) (lit 0.15)))
          (jmul (inconsistentValuesScore (report (analyzeData E d))) (lit 0.10)))
          (jmul (unusualPatternsScore (report (analyzeData E d))) (lit 0.10)))
          (jmul (sensitiveDataScore (report (analyzeData E d))) (lit 0.15)))
   \<and> (\<forall>a1 a2 a3 a4 a5 a6 a7.
        missingValuesScore (report (analyzeData E d)) = num a1 \<longrightarrow>
        duplicatesScore (report (analyzeData E d)) = num a2 \<longrightarrow>
        invalidFormatScore (report (analyzeData E d)) = num a3 \<longrightarrow>
        valueRangeScore (report (analyzeData E d)) = num a4 \<longrightarrow>
        inconsistentValuesScore (report (analyzeData E d)) = num a5 \<longrightarrow>
        unusualPatternsScore (report (analyzeData E d)) = num a6 \<longrightarrow>
        sensitiveDataScore (report (analyzeData E d)) = num a7 \<longrightarrow>
        a1 \<le> 100 \<longrightarrow> a2 \<le> 100 \<longrightarrow> a3 \<le> 100 \<longrightarrow> a4 \<le> 100 \<longrightarrow> a5 \<le> 100 \<longrightarrow> a6 \<le> 100 \<longrightarrow>
        a7 \<le> 100 \<longrightarrow>
          ((20 * a1 + 15 * a2 + 15 * a3 + 15 * a4 + 10 * a5 + 10 * a6 + 15 * a7) mod 100 \<noteq> 50 \<longrightarrow>
             overallScore (report (analyzeData E d))
               = Fin (of_int \<lfloor>of_nat (20 * a1 + 15 * a2 + 15 * a3 + 15 * a4 + 10 * a5 + 10 * a6
                                       + 15 * a7) / 100 + 1 / 2 :: rat\<rfloor>))
          \<and> (overallScore (report (analyzeData E d))
               = Fin (of_int \<lfloor>of_nat (20 * a1 + 15 * a2 + 15 * a3 + 15 * a4 + 10 * a5 + 10 * a6
                                       + 15 * a7) / 100 + 1 / 2 :: rat\<rfloor>)
             \<or> overallScore (report (analyzeData E d))
               = Fin (of_int (\<lfloor>of_nat (20 * a1 + 15 * a2 + 15 * a3 + 15 * a4 + 10 * a5 + 10 * a6
                                       + 15 * a7) / 100 + 1 / 2 :: rat\<rfloor> - 1))))
   \<and> weightedScore (Fin 100) (Fin 100) (Fin 100) (Fin 100) (Fin 100) (Fin 100) (Fin 100) = Fin 100
   \<and> weightedScore (Fin 0) (Fin 0) (Fin 0) (Fin 0) (Fin 0) (Fin 0) (Fin 0) = Fin 0"
proof (intro conjI allI impI)
  show "overallScore (report (analyzeData E d)) =
     Math_round
       (jadd (jadd (jadd (jadd (jadd (jadd
          (jmul (missingValuesScore (report (analyzeData E d))) (lit 0.20))
          (jmul (duplicatesScore (report (analyzeData E d))) (lit 0.15)))
          (jmul (invalidFormatScore (report (analyzeData E d))) (lit 0.15)))
          (jmul (valueRangeScore (report (analyzeData E d))) (lit 0.15)))
          (jmul (inconsistentValuesScore (report (analyzeData E d))) (lit 0.10)))
          (jmul (unusualPatternsScore (report (analyzeData E d))) (lit 0.10)))
          (jmul (sensitiveDataScore (report (analyzeData E d))) (lit 0.15)))"
    by (simp only: overallScore_analyzeData weightedScore_def)
next
  fix a1 a2 a3 a4 a5 a6 a7
  assume s: "missingValuesScore (report (analyzeData E d)) = num a1"
    "duplicatesScore (report (analyzeData E d)) = num a2"
    "invalidFormatScore (report (analyzeData E d)) = num a3"
    "valueRangeScore (report (analyzeData E d)) = num a4"
    "inconsistentValuesScore (report (analyzeData E d)) = num a5"
    "unusualPatternsScore (report (analyzeData E d)) = num a6"
    "sensitiveDataScore (report (analyzeData E d)) = num a7"
    and b: "a1 \<le> 100" "a2 \<le> 100" "a3 \<le> 100" "a4 \<le> 100" "a5 \<le> 100" "a6 \<le> 100" "a7 \<le> 100"
  have o: "overallScore (report (analyzeData E d))
             = weightedScore (num a1) (num a2) (num a3) (num a4) (num a5) (num a6) (num a7)"
    by (simp only: overallScore_analyzeData s)
  note r = weighted_round[OF b refl]
  {
    assume "(20 * a1 + 15 * a2 + 15 * a3 + 15 * a4 + 10 * a5 + 10 * a6 + 15 * a7) mod 100 \<noteq> 50"
    then show "overallScore (report (analyzeData E d))
               = Fin (of_int \<lfloor>of_nat (20 * a1 + 15 * a2 + 15 * a3 + 15 * a4 + 10 * a5 + 10 * a6
                                       + 15 * a7) / 100 + 1 / 2 :: rat\<rfloor>)"
      unfolding o by (rule r(1))
  }
  show "overallScore (report (analyzeData E d))
               = Fin (of_int \<lfloor>of_nat (20 * a1 + 15 * a2 + 15 * a3 + 15 * a4 + 10 * a5 + 10 * a6
                                       + 15 * a7) / 100 + 1 / 2 :: rat\<rfloor>)
             \<or> overallScore (report (analyzeData E d))
               = Fin (of_int (\<lfloor>of_nat (20 * a1 + 15 * a2 + 15 * a3 + 15 * a4 + 10 * a5 + 10 * a6
                                       + 15 * a7) / 100 + 1 / 2 :: rat\<rfloor> - 1))"
    unfolding o using r by blast
qed (rule weighted_100 weighted_0)+

theorem overall_score_is_weighted_sum_witness:
  "overallScore (report (analyzeData sampleEnv sampleNames)) = Fin 95"
proof -
  have b: "(100::nat) \<le> 100" "(50::nat) \<le> 100" by simp_all
  have m: "(20 * 100 + 15 * 100 + 15 * 100 + 15 * 100 + 10 * 50 + 10 * 100 + 15 * 100) mod 100
             \<noteq> (50::nat)" by simp
  have "overallScore (report (analyzeData sampleEnv sampleNames))
          = Fin (of_int \<lfloor>of_nat (20 * 100 + 15 * 100 + 15 * 100 + 15 * 100 + 10 * 50 + 10 * 100
                                  + 15 * 100) / 100 + 1 / 2 :: rat\<rfloor>)"
    using overall_score_is_weighted_sum[of sampleEnv sampleNames]
      sampleNames_scores[of sampleEnv] b m by blast
  also have "\<lfloor>of_nat (20 * 100 + 15 * 100 + 15 * 100 + 15 * 100 + 10 * 50 + 10 * 100
                                  + 15 * 100) / 100 + 1 / 2 :: rat\<rfloor> = 95"
    by (rule floor_unique) simp_all
  finally show ?thesis by simp
qed

lemma sampleEmails_counts:
  "length (rows sampleEmails) = 3" "length (headers sampleEmails) = 1"
  "total (snd (missingPass sampleEmails)) = num 1"
  "length (duplicateRowIndices sampleEmails) = 0"
  "total (snd (snd (formatPass E sampleEmails))) = num 1"
  "total (snd (rangePass E sampleEmails)) = num 0"
  "total (snd (inconsistentPass E sampleEmails (fst (snd (formatPass E sampleEmails))))) = num 0"
  "total (snd (unusualPass E sampleEmails)) = num 0"
  "length (fst (piiPass E sampleEmails)) = 1"
  by code_simp+

lemma sample_ratios:
  "ratioScore (jmul (num 3) (num 1)) (num 1) = Fin 67"
  "ratioScore (num 3) (num 0) = Fin 100"
  "penaltyScore (num 1) (num 3) = Fin 67"
  "penaltyScore (num 0) (num 3) = Fin 100"
  by code_simp+

lemma weighted_sample:
  "weightedScore (Fin 67) (Fin 100) (Fin 67) (Fin 100) (Fin 100) (Fin 100) (Fin 67) = Fin 83"
  by code_simp

lemma sampleEmails_scores:
  "missingValuesScore (report (analyzeData E sampleEmails)) = Fin 67"
  "duplicatesScore (report (analyzeData E sampleEmails)) = Fin 100"
  "invalidFormatScore (report (analyzeData E sampleEmails)) = Fin 67"
  "valueRangeScore (report (analyzeData E sampleEmails)) = Fin 100"
  "inconsistentValuesScore (report (analyzeData E sampleEmails)) = Fin 100"
  "unusualPatternsScore (report (analyzeData E sampleEmails)) = Fin 100"
  "sensitiveDataScore (report (analyzeData E sampleEmails)) = Fin 67"
proof -
  show "missingValuesScore (report (analyzeData E sampleEmails)) = Fin 67"
    by (simp only: missingValuesScore_analyzeData sampleEmails_counts sample_ratios)
  show "duplicatesScore (report (analyzeData E sampleEmails)) = Fin 100"
    by (simp only: duplicatesScore_analyzeData sampleEmails_counts sample_ratios)
  show "invalidFormatScore (report (analyzeData E sampleEmails)) = Fin 67"
    "valueRangeScore (report (analyzeData E sampleEmails)) = Fin 100"
    "inconsistentValuesScore (report (analyzeData E sampleEmails)) = Fin 100"
    "unusualPatternsScore (report (analyzeData E sampleEmails)) = Fin 100"
    by (simp_all only: penalty_scores_analyzeData sampleEmails_counts sample_ratios)
  show "sensitiveDataScore (report (analyzeData E sampleEmails)) = Fin 67"
    by (simp only: sensitiveDataScore_analyzeData sensitive_issues_analyzeData
          sampleEmails_counts sample_ratios) simp
qed

lemma sampleEmails_overall: "overallScore (report (analyzeData E sampleEmails)) = Fin 83"
  by (simp only: overallScore_analyzeData sampleEmails_scores weighted_sample)

theorem half_way_sum_is_rounded_down:
  "\<forall>E. missingValuesScore (report (analyzeData E sampleEmails)) = Fin 67
     \<and> duplicatesScore (report (analyzeData E sampleEmails)) = Fin 100
     \<and> invalidFormatScore (report (analyzeData E sampleEmails)) = Fin 67
     \<and> valueRangeScore (report (analyzeData E sampleEmails)) = Fin 100
     \<and> inconsistentValuesScore (report (analyzeData E sampleEmails)) = Fin 100
     \<and> unusualPatternsScore (report (analyzeData E sampleEmails)) = Fin 100
     \<and> sensitiveDataScore (report (analyzeData E sampleEmails)) = Fin 67
     \<and> overallScore (report (analyzeData E sampleEmails)) = Fin 83
     \<and> \<lfloor>(20 * 67 + 15 * 100 + 15 * 67 + 15 * 100 + 10 * 100 + 10 * 100 + 15 * 67) / 100
          + 1 / 2 :: rat\<rfloor> = 84"
proof -
  have "\<lfloor>(20 * 67 + 15 * 100 + 15 * 67 + 15 * 100 + 10 * 100 + 10 * 100 + 15 * 67) / 100
          + 1 / 2 :: rat\<rfloor> = 84" by simp
  then show ?thesis using sampleEmails_scores sampleEmails_overall by blast
qed


lemma weightedScore_NaN [simp]: "weightedScore NaN b c d e f g = NaN"
  by (simp add: weightedScore_def Math_round_def)

lemma empty_sample_scores:
  "ratioScore (jmul (num (length ([] :: cell list list))) (num (length [''a''])))
     (total (snd (missingPass \<lparr>headers = [''a''], rows = [], filename = ''empty.csv''\<rparr>))) = NaN"
  "ratioScore (num (length ([] :: cell list list)))
     (num (length (duplicateRowIndices \<lparr>headers = [''a''], rows = [], filename = ''empty.csv''\<rparr>))) = NaN"
  "penaltyScore (total (snd (snd (formatPass E \<lparr>headers = [''a''], rows = [], filename = ''empty.csv''\<rparr>))))
     (num (length ([] :: cell list list))) = NaN"
  "penaltyScore (total (snd (rangePass E \<lparr>headers = [''a''], rows = [], filename = ''empty.csv''\<rparr>)))
     (num (length ([] :: cell list list))) = NaN"
  "penaltyScore (total (snd (inconsistentPass E \<lparr>headers = [''a''], rows = [], filename = ''empty.csv''\<rparr>
        (fst (snd (formatPass E \<lparr>headers = [''a''], rows = [], filename = ''empty.csv''\<rparr>))))))
     (num (length ([] :: cell list list))) = NaN"
  "penaltyScore (total (snd (unusualPass E \<lparr>headers = [''a''], rows = [], filename = ''empty.csv''\<rparr>)))
     (num (length ([] :: cell list list))) = NaN"
  by (simp_all add: missingPass_def duplicateRowIndices_def formatPass_def rangePass_def
      inconsistentPass_def unusualPass_def columnData_def enumerate_eq_zip Let_def
      missingColumn_def formatColumn_def rangeColumn_def textColumn_def shipColumn_def
      unusualColumn_def obj_set_def total_def Object_values_def num_def ratioScore_def
      penaltyScore_def jsub_def jneg_def Math_round_def Math_max_def split: option.splits)

text \<open>
  C2. On a dataset with a header and no row the scorer divides zero by zero: six of the
  seven dimension scores and the overall score are \<open>NaN\<close>, not 100.
\<close>

theorem empty_dataset_scores_are_NaN:
  "missingValuesScore (report (analyzeData E \<lparr>headers = [''a''], rows = [], filename = ''empty.csv''\<rparr>)) = NaN
   \<and> duplicatesScore (report (analyzeData E \<lparr>headers = [''a''], rows = [], filename = ''empty.csv''\<rparr>)) = NaN
   \<and> invalidFormatScore (report (analyzeData E \<lparr>headers = [''a''], rows = [], filename = ''empty.csv''\<rparr>)) = NaN
   \<and> valueRangeScore (report (analyzeData E \<lparr>headers = [''a''], rows = [], filename = ''empty.csv''\<rparr>)) = NaN
   \<and> inconsistentValuesScore (report (analyzeData E \<lparr>headers = [''a''], rows = [], filename = ''empty.csv''\<rparr>)) = NaN
   \<and> unusualPatternsScore (report (analyzeData E \<lparr>headers = [''a''], rows = [], filename = ''empty.csv''\<rparr>)) = NaN
   \<and> overallScore (report (analyzeData E \<lparr>headers = [''a''], rows = [], filename = ''empty.csv''\<rparr>)) = NaN"
proof -
  let ?d = "\<lparr>headers = [''a''], rows = [], filename = ''empty.csv''\<rparr>"
  have m: "missingValuesScore (report (analyzeData E ?d)) = NaN"
    using empty_sample_scores(1) by (simp only: missingValuesScore_analyzeData CSVData.simps)
  have "duplicatesScore (report (analyzeData E ?d)) = NaN"
    using empty_sample_scores(2) by (simp only: duplicatesScore_analyzeData CSVData.simps)
  moreover have "invalidFormatScore (report (analyzeData E ?d)) = NaN"
    using empty_sample_scores(3) by (simp only: penalty_scores_analyzeData CSVData.simps)
  moreover have "valueRangeScore (report (analyzeData E ?d)) = NaN"
    using empty_sample_scores(4) by (simp only: penalty_scores_analyzeData CSVData.simps)
  moreover have "inconsistentValuesScore (report (analyzeData E ?d)) = NaN"
    using empty_sample_scores(5) by (simp only: penalty_scores_analyzeData CSVData.simps)
  moreover have "unusualPatternsScore (report (analyzeData E ?d)) = NaN"
    using empty_sample_scores(6) by (simp only: penalty_scores_analyzeData CSVData.simps)
  moreover have "overallScore (report (analyzeData E ?d)) = NaN"
    by (simp only: overallScore_analyzeData[of E ?d] m weightedScore_NaN)
  ultimately show ?thesis using m by simp
qed

section \<open>Duplicate rows\<close>

lemma concat_flagged_pairs:
  "concat (map (\<lambda>i. if P i then [(k + i, k + g i)] else []) xs)
     = map (\<lambda>i. (k + i, k + g i)) (filter P xs)"
  by (induction xs) auto

lemma duplicateScan_empty:
  "duplicateScan Map.empty 0 rs =
     map (\<lambda>i. (i, LEAST j. JSON_stringify (rs ! j) = JSON_stringify (rs ! i)))
         (filter (\<lambda>i. \<exists>j<i. JSON_stringify (rs ! j) = JSON_stringify (rs ! i)) [0..<length rs])"
  by (simp add: duplicateScan_char concat_flagged_pairs)

lemma ratioScore_5_2: "ratioScore (num 5) (num 2) = Fin 60"
  by code_simp

text \<open>
  C4. The rows flagged as duplicates are exactly those whose serialized form occurs at a
  smaller index; each gets one issue, which names the first row with that form; the
  issues of type \<open>duplicate\<close> in the result are these. For rows \<open>[A, B, A, C, A]\<close> with
  three different serialized forms, rows 2 and 4 are flagged, both issues name row 0, and
  the duplicates score is 60.
\<close>

theorem duplicates_flag_later_occurrences:
  "duplicateRowIndices d =
     filter (\<lambda>i. \<exists>j<i. JSON_stringify (rows d ! j) = JSON_stringify (rows d ! i))
            [0..<length (rows d)]
   \<and> duplicatePass d =
       map (\<lambda>i. duplicateIssue i
                  (LEAST j. JSON_stringify (rows d ! j) = JSON_stringify (rows d ! i))
                  (rows d ! i))
           (duplicateRowIndices d)
   \<and> filter (\<lambda>i. type i = ''duplicate'') (issues (analyzeData E d)) = duplicatePass d
   \<and> (rows d = [A, B, A, C, A] \<longrightarrow> JSON_stringify A \<noteq> JSON_stringify B \<longrightarrow>
        JSON_stringify A \<noteq> JSON_stringify C \<longrightarrow> JSON_stringify B \<noteq> JSON_stringify C \<longrightarrow>
          duplicateRowIndices d = [2, 4]
          \<and> duplicatePass d = [duplicateIssue 2 0 A, duplicateIssue 4 0 A]
          \<and> duplicatesScore (report (analyzeData E d)) = Fin 60)"
proof (intro conjI impI)
  show idx: "duplicateRowIndices d =
     filter (\<lambda>i. \<exists>j<i. JSON_stringify (rows d ! j) = JSON_stringify (rows d ! i))
            [0..<length (rows d)]"
    by (simp add: duplicateRowIndices_def duplicateScan_empty o_def)
  show "duplicatePass d =
       map (\<lambda>i. duplicateIssue i
                  (LEAST j. JSON_stringify (rows d ! j) = JSON_stringify (rows d ! i))
                  (rows d ! i))
           (duplicateRowIndices d)"
    by (simp add: idx duplicatePass_def duplicateScan_empty o_def)
  show "filter (\<lambda>i. type i = ''duplicate'') (issues (analyzeData E d)) = duplicatePass d"
    by (rule duplicate_issues_analyzeData)
next
  assume r: "rows d = [A, B, A, C, A]"
    and ne: "JSON_stringify A \<noteq> JSON_stringify B" "JSON_stringify A \<noteq> JSON_stringify C"
      "JSON_stringify B \<noteq> JSON_stringify C"
  have scan: "duplicateScan Map.empty 0 [A, B, A, C, A] = [(2, 0), (4, 0)]"
    using ne by (simp add: Let_def)
  show i: "duplicateRowIndices d = [2, 4]"
    unfolding duplicateRowIndices_def r scan by simp
  show "duplicatePass d = [duplicateIssue 2 0 A, duplicateIssue 4 0 A]"
    unfolding duplicatePass_def r scan by simp
  show "duplicatesScore (report (analyzeData E d)) = Fin 60"
  proof -
    have "length (rows d) = 5" "length (duplicateRowIndices d) = 2"
      by (simp_all add: i r)
    then show ?thesis using ratioScore_5_2 by (simp only: duplicatesScore_analyzeData)
  qed
qed

theorem duplicates_flag_later_occurrences_witness:
  "duplicateRowIndices
     \<lparr>headers = [''name''],
      rows = [[Str ''ann''], [Str ''bob''], [Str ''ann''], [Str ''cy''], [Str ''ann'']],
      filename = ''names.csv''\<rparr> = [2, 4]
   \<and> map description (duplicatePass
     \<lparr>headers = [''name''],
      rows = [[Str ''ann''], [Str ''bob''], [Str ''ann''], [Str ''cy''], [Str ''ann'']],
      filename = ''names.csv''\<rparr>)
       = [''Duplicate row #3 (identical to row #1)'', ''Duplicate row #5 (identical to row #1)'']
   \<and> duplicatesScore (report (analyzeData sampleEnv
     \<lparr>headers = [''name''],
      rows = [[Str ''ann''], [Str ''bob''], [Str ''ann''], [Str ''cy''], [Str ''ann'']],
      filename = ''names.csv''\<rparr>)) = Fin 60"
proof -
  let ?d = "\<lparr>headers = [''name''],
      rows = [[Str ''ann''], [Str ''bob''], [Str ''ann''], [Str ''cy''], [Str ''ann'']],
      filename = ''names.csv''\<rparr>"
  have r: "rows ?d = [[Str ''ann''], [Str ''bob''], [Str ''ann''], [Str ''cy''], [Str ''ann'']]"
    by simp
  have ne: "JSON_stringify [Str ''ann''] \<noteq> JSON_stringify [Str ''bob'']"
    "JSON_stringify [Str ''ann''] \<noteq> JSON_stringify [Str ''cy'']"
    "JSON_stringify [Str ''bob''] \<noteq> JSON_stringify [Str ''cy'']"
    by (simp_all add: JSON_stringify_def jsonOf_def)
  have d1: "description (duplicateIssue 2 0 [Str ''ann'']) = ''Duplicate row #3 (identical to row #1)''"
    and d2: "description (duplicateIssue 4 0 [Str ''ann'']) = ''Duplicate row #5 (identical to row #1)''"
    by code_simp+
  from duplicates_flag_later_occurrences[of ?d sampleEnv "[Str ''ann'']" "[Str ''bob'']" "[Str ''cy'']"] r ne
  have "duplicateRowIndices ?d = [2, 4]"
    and "duplicatePass ?d = [duplicateIssue 2 0 [Str ''ann''], duplicateIssue 4 0 [Str ''ann'']]"
    and "duplicatesScore (report (analyzeData sampleEnv ?d)) = Fin 60"
    by blast+
  then show ?thesis using d1 d2 by simp
qed

section \<open>The tokens that count as missing\<close>

lemma token_facts:
  "isMissing (Str ''null'')" "isMissing (Str ''NULL'')" "isMissing (Str ''N/A'')" "isMissing (Str ''n/a'')"
  "nonEmpty (Str ''null'')" "nonEmpty (Str ''NULL'')" "nonEmpty (Str ''N/A'')" "nonEmpty (Str ''n/a'')"
  by (simp_all add: isMissing_def nonEmpty_def)

lemma token_phone_length:
  "length (stripPhone ''null'') < 10" "length (stripPhone ''NULL'') < 10"
  "length (stripPhone ''N/A'') < 10" "length (stripPhone ''n/a'') < 10"
  by code_simp+

lemma token_not_email:
  "\<not> test emailPattern ''null''" "\<not> test emailPattern ''NULL''"
  "\<not> test emailPattern ''N/A''" "\<not> test emailPattern ''n/a''"
  by code_simp+

lemma token_rangeCheck:
  assumes "t = ''null'' \<or> t = ''NULL'' \<or> t = ''N/A'' \<or> t = ''n/a''"
    and "includes_str (toLowerCase h) ''phone''"
  shows "\<exists>msg. rangeCheck E h (Str t) = Some msg"
  using assms token_phone_length by (auto simp: rangeCheck_def Let_def toString_def)

lemma token_formatCheck:
  assumes "t = ''null'' \<or> t = ''NULL'' \<or> t = ''N/A'' \<or> t = ''n/a''"
  shows "\<exists>msg. formatCheck E ''email'' (Str t) = Some msg"
  using assms token_not_email by (auto simp: formatCheck_def toString_def)

text \<open>
  C10. The tokens \<open>null\<close>, \<open>NULL\<close>, \<open>N/A\<close> and \<open>n/a\<close> are missing values, and they pass the
  guard of the format, range, pattern and sensitive-data analyzers, which excludes only
  the empty string, \<open>null\<close> and \<open>undefined\<close>. A cell that holds such a token always gets a
  missing-value issue, and it gets an issue of another dimension as well: a value-range
  issue when its header contains \<open>phone\<close>, an invalid-format issue when its column has the
  type \<open>email\<close>. The pattern and the sensitive-data analyzers examine the token too, and
  none of their tests accepts one. That these four analyzers examine every cell that
  passes the guard shows on a dataset of ASCII text: whatever the test of an analyzer
  accepts in such a cell is among the issues of the analysis.
\<close>

theorem missing_tokens_reach_other_analyzers:
  "isMissing (Str ''null'') \<and> isMissing (Str ''NULL'')
   \<and> isMissing (Str ''N/A'') \<and> isMissing (Str ''n/a'')
   \<and> nonEmpty (Str ''null'') \<and> nonEmpty (Str ''NULL'')
   \<and> nonEmpty (Str ''N/A'') \<and> nonEmpty (Str ''n/a'')
   \<and> (\<forall>v. nonEmpty v = (v \<noteq> Str '''' \<and> v \<noteq> Null \<and> v \<noteq> Undefined))
   \<and> (\<forall>c r t. c < length (headers d) \<longrightarrow> r < length (rows d) \<longrightarrow>
          cellAt (rows d ! r) c = Str t \<longrightarrow>
          (t = ''null'' \<or> t = ''NULL'' \<or> t = ''N/A'' \<or> t = ''n/a'') \<longrightarrow>
            missingIssue (headers d ! c) r (Str t) \<in> set (issues (analyzeData E d))
            \<and> (includes_str (toLowerCase (headers d ! c)) ''phone'' \<longrightarrow>
                 (\<exists>msg. rangeIssue (headers d ! c) r (Str t) msg \<in> set (issues (analyzeData E d))))
            \<and> (inferColumnType (headers d ! c) (columnData d c) = ''email'' \<longrightarrow>
                 (\<exists>msg. formatIssue (headers d ! c) r (Str t) msg \<in> set (issues (analyzeData E d))))
            \<and> unusualCheck E (headers d ! c) (Str t) = None
            \<and> piiCell E (headers d ! c) r (Str t) = [])
   \<and> (asciiData d \<longrightarrow>
        (\<forall>c r v. c < length (headers d) \<longrightarrow> r < length (rows d) \<longrightarrow>
           cellAt (rows d ! r) c = v \<longrightarrow> nonEmpty v \<longrightarrow>
             (\<forall>msg. formatCheck E (inferColumnType (headers d ! c) (columnData d c)) v = Some msg
                \<longrightarrow> formatIssue (headers d ! c) r v msg \<in> set (issues (analyzeData E d)))
             \<and> (\<forall>msg. rangeCheck E (headers d ! c) v = Some msg
                \<longrightarrow> rangeIssue (headers d ! c) r v msg \<in> set (issues (analyzeData E d)))
             \<and> (\<forall>msg. unusualCheck E (headers d ! c) v = Some msg
                \<longrightarrow> unusualIssue (headers d ! c) r v msg \<in> set (issues (analyzeData E d)))
             \<and> (test emailPattern (toString E v) \<longrightarrow>
                  (\<exists>msg. piiIssue (headers d ! c) r v msg
                           ''Mask, encrypt, or remove email addresses for privacy compliance''
                         \<in> set (issues (analyzeData E d))))
             \<and> (test piiPhonePattern (stripPhone (toString E v)) \<longrightarrow>
                  (\<exists>msg. piiIssue (headers d ! c) r v msg
                           ''Mask or encrypt phone numbers for privacy protection''
                         \<in> set (issues (analyzeData E d))))
             \<and> (test ssnPattern (toString E v) \<or> test nineDigits (toString E v) \<longrightarrow>
                  (\<exists>msg. piiIssue (headers d ! c) r v msg
                           ''Immediately encrypt or remove SSN data - high compliance risk''
                         \<in> set (issues (analyzeData E d))))
             \<and> (test cardPattern (toString E v) \<longrightarrow>
                  (\<exists>msg. piiIssue (headers d ! c) r v msg
                           ''Remove credit card data immediately - PCI compliance violation''
                         \<in> set (issues (analyzeData E d))))))"
proof (intro conjI allI impI)
  fix c r t
  assume c: "c < length (headers d)" and r: "r < length (rows d)"
    and v: "cellAt (rows d ! r) c = Str t"
    and t: "t = ''null'' \<or> t = ''NULL'' \<or> t = ''N/A'' \<or> t = ''n/a''"
  have m: "isMissing (Str t)" and n: "nonEmpty (Str t)"
    using t token_facts by auto
  show "missingIssue (headers d ! c) r (Str t) \<in> set (issues (analyzeData E d))"
    using missing_issue_in_analysis[OF c r, of E] m v by simp
  show "unusualCheck E (headers d ! c) (Str t) = None" using t by (rule token_unusualCheck)
  show "piiCell E (headers d ! c) r (Str t) = []" using t by (rule token_piiCell)
  {
    assume "includes_str (toLowerCase (headers d ! c)) ''phone''"
    then obtain msg where "rangeCheck E (headers d ! c) (Str t) = Some msg"
      using token_rangeCheck[OF t] by blast
    then show "\<exists>msg. rangeIssue (headers d ! c) r (Str t) msg \<in> set (issues (analyzeData E d))"
      using range_issue_in_analysis[OF c r, of E msg] n v by auto
  }
  {
    assume e: "inferColumnType (headers d ! c) (columnData d c) = ''email''"
    obtain msg where "formatCheck E ''email'' (Str t) = Some msg"
      using token_formatCheck[OF t] by blast
    then show "\<exists>msg. formatIssue (headers d ! c) r (Str t) msg \<in> set (issues (analyzeData E d))"
      using format_issue_in_analysis[OF c r, of E msg] n v e by auto
  }
next
  fix c r v
  assume c: "c < length (headers d)" and r: "r < length (rows d)"
    and v: "cellAt (rows d ! r) c = v" and n: "nonEmpty v"
  note p = pii_detections[OF n, of E "headers d ! c" r]
  note q = pii_issue_in_analysis[OF c r, of _ E, unfolded v]
  {
    fix msg
    assume "formatCheck E (inferColumnType (headers d ! c) (columnData d c)) v = Some msg"
    then show "formatIssue (headers d ! c) r v msg \<in> set (issues (analyzeData E d))"
      using format_issue_in_analysis[OF c r, of E msg] n v by simp
  }
  {
    fix msg
    assume "rangeCheck E (headers d ! c) v = Some msg"
    then show "rangeIssue (headers d ! c) r v msg \<in> set (issues (analyzeData E d))"
      using range_issue_in_analysis[OF c r, of E msg] n v by simp
  }
  {
    fix msg
    assume "unusualCheck E (headers d ! c) v = Some msg"
    then show "unusualIssue (headers d ! c) r v msg \<in> set (issues (analyzeData E d))"
      using unusual_issue_in_analysis[OF c r, of E msg] n v by simp
  }
  {
    assume "test emailPattern (toString E v)"
    from p(1)[OF this] q show "\<exists>msg. piiIssue (headers d ! c) r v msg
                           ''Mask, encrypt, or remove email addresses for privacy compliance''
                         \<in> set (issues (analyzeData E d))"
      by fastforce
  }
  {
    assume "test piiPhonePattern (stripPhone (toString E v))"
    from p(2)[OF this] q show "\<exists>msg. piiIssue (headers d ! c) r v msg
                           ''Mask or encrypt phone numbers for privacy protection''
                         \<in> set (issues (analyzeData E d))"
      by fastforce
  }
  {
    assume "test ssnPattern (toString E v) \<or> test nineDigits (toString E v)"
    from p(3)[OF this] q show "\<exists>msg. piiIssue (headers d ! c) r v msg
                           ''Immediately encrypt or remove SSN data - high compliance risk''
                         \<in> set (issues (analyzeData E d))"
      by fastforce
  }
  {
    assume "test cardPattern (toString E v)"
    from p(4)[OF this] q show "\<exists>msg. piiIssue (headers d ! c) r v msg
                           ''Remove credit card data immediately - PCI compliance violation''
                         \<in> set (issues (analyzeData E d))"
      by fastforce
  }
qed (simp_all add: token_facts, simp add: nonEmpty_def)

lemma samplePhones_facts:
  "asciiData samplePhones"
  "includes_str (toLowerCase ''phone'') ''phone''"
  "unusualCheck sampleEnv ''phone'' (Str ''test'') \<noteq> None"
  "test ssnPattern (toString sampleEnv (Str ''123-45-6789''))"
  by code_simp+

lemma samplePhones_cells:
  "length (headers samplePhones) = 1" "length (rows samplePhones) = 3"
  "headers samplePhones ! 0 = ''phone''"
  "cellAt (rows samplePhones ! 0) 0 = Str ''N/A''"
  "cellAt (rows samplePhones ! 1) 0 = Str ''test''"
  "cellAt (rows samplePhones ! 2) 0 = Str ''123-45-6789''"
  by (simp_all add: samplePhones_def cellAt_def)

theorem missing_tokens_reach_other_analyzers_witness:
  "missingIssue ''phone'' 0 (Str ''N/A'') \<in> set (issues (analyzeData sampleEnv samplePhones))
   \<and> (\<exists>msg. rangeIssue ''phone'' 0 (Str ''N/A'') msg
              \<in> set (issues (analyzeData sampleEnv samplePhones)))
   \<and> (\<exists>msg. unusualIssue ''phone'' 1 (Str ''test'') msg
              \<in> set (issues (analyzeData sampleEnv samplePhones)))
   \<and> (\<exists>msg. piiIssue ''phone'' 2 (Str ''123-45-6789'') msg
                ''Immediately encrypt or remove SSN data - high compliance risk''
              \<in> set (issues (analyzeData sampleEnv samplePhones)))"
proof -
  note t = missing_tokens_reach_other_analyzers[of samplePhones sampleEnv]
  have c: "(0::nat) < length (headers samplePhones)"
    and r: "(0::nat) < length (rows samplePhones)" "(1::nat) < length (rows samplePhones)"
       "(2::nat) < length (rows samplePhones)"
    by (simp_all add: samplePhones_cells)
  have n: "nonEmpty (Str ''test'')" "nonEmpty (Str ''123-45-6789'')"
    by (simp_all add: nonEmpty_def)
  obtain msg where u: "unusualCheck sampleEnv ''phone'' (Str ''test'') = Some msg"
    using samplePhones_facts(3) by blast
  from t c r(1) samplePhones_cells(3,4) samplePhones_facts(2)
  have "missingIssue ''phone'' 0 (Str ''N/A'') \<in> set (issues (analyzeData sampleEnv samplePhones))
     \<and> (\<exists>msg. rangeIssue ''phone'' 0 (Str ''N/A'') msg
              \<in> set (issues (analyzeData sampleEnv samplePhones)))"
    by (metis (no_types, lifting))
  moreover from t samplePhones_facts(1) c r(2) samplePhones_cells(3,5) n(1) u
  have "\<exists>msg. unusualIssue ''phone'' 1 (Str ''test'') msg
              \<in> set (issues (analyzeData sampleEnv samplePhones))"
    by (metis (no_types, lifting))
  moreover from t samplePhones_facts(1,4) c r(3) samplePhones_cells(3,6) n(2)
  have "\<exists>msg. piiIssue ''phone'' 2 (Str ''123-45-6789'') msg
                ''Immediately encrypt or remove SSN data - high compliance risk''
              \<in> set (issues (analyzeData sampleEnv samplePhones))"
    by (metis (no_types, lifting))
  ultimately show ?thesis by blast
qed

section \<open>Rows shorter or longer than the header\<close>

lemma cellAt_short: "length row \<le> c \<Longrightarrow> cellAt row c = Undefined"
  by (simp add: cellAt_def)

text \<open>
  C9. The analysis has no check of the length of a row and no error result: it returns a
  report for every dataset, with every row counted. A cell that a short row lacks is read
  as \<open>undefined\<close> and reported as a missing value of its column. The cells of a row beyond
  the number of headers are read by no column analyzer: two datasets with the same
  headers whose rows agree on the cells under the headers have the same issues, apart
  from those of duplicate rows (the rows are compared whole), the same column types and
  the same scores for missing values, format, range, inconsistent values, patterns and
  sensitive data.
\<close>

theorem ragged_rows_are_analysed:
  "totalRows (report (analyzeData E d)) = length (rows d)
   \<and> (\<forall>c r. c < length (headers d) \<longrightarrow> r < length (rows d) \<longrightarrow> length (rows d ! r) \<le> c \<longrightarrow>
         missingIssue (headers d ! c) r Undefined \<in> set (issues (analyzeData E d)))
   \<and> (\<forall>d'. headers d' = headers d \<longrightarrow>
         map (take (length (headers d))) (rows d') = map (take (length (headers d))) (rows d) \<longrightarrow>
           filter (\<lambda>i. type i \<noteq> ''duplicate'') (issues (analyzeData E d'))
             = filter (\<lambda>i. type i \<noteq> ''duplicate'') (issues (analyzeData E d))
           \<and> totalRows (report (analyzeData E d')) = totalRows (report (analyzeData E d))
           \<and> dataTypes (report (analyzeData E d')) = dataTypes (report (analyzeData E d))
           \<and> missingValuesScore (report (analyzeData E d'))
               = missingValuesScore (report (analyzeData E d))
           \<and> invalidFormatScore (report (analyzeData E d'))
               = invalidFormatScore (report (analyzeData E d))
           \<and> valueRangeScore (report (analyzeData E d'))
               = valueRangeScore (report (analyzeData E d))
           \<and> inconsistentValuesScore (report (analyzeData E d'))
               = inconsistentValuesScore (report (analyzeData E d))
           \<and> unusualPatternsScore (report (analyzeData E d'))
               = unusualPatternsScore (report (analyzeData E d))
           \<and> sensitiveDataScore (report (analyzeData E d'))
               = sensitiveDataScore (report (analyzeData E d)))"
proof (intro conjI allI impI)
  show "totalRows (report (analyzeData E d)) = length (rows d)"
    by (rule totalRows_analyzeData)
next
  fix c r
  assume c: "c < length (headers d)" and r: "r < length (rows d)"
    and s: "length (rows d ! r) \<le> c"
  show "missingIssue (headers d ! c) r Undefined \<in> set (issues (analyzeData E d))"
    using missing_issue_in_analysis[OF c r, of E] cellAt_short[OF s]
    by (simp add: isMissing_def)
qed (rule report_header_cells; assumption)+

theorem ragged_rows_are_analysed_witness:
  "missingIssue ''city'' 1 Undefined \<in> set (issues (analyzeData sampleEnv sampleShort))
   \<and> totalRows (report (analyzeData sampleEnv sampleShort)) = 2
   \<and> filter (\<lambda>i. type i \<noteq> ''duplicate'') (issues (analyzeData sampleEnv sampleLong))
       = filter (\<lambda>i. type i \<noteq> ''duplicate'') (issues (analyzeData sampleEnv sampleShort))
   \<and> missingValuesScore (report (analyzeData sampleEnv sampleLong))
       = missingValuesScore (report (analyzeData sampleEnv sampleShort))"
proof -
  have s: "(1::nat) < length (headers sampleShort)" "(1::nat) < length (rows sampleShort)"
    "length (rows sampleShort ! 1) \<le> 1" "headers sampleShort ! 1 = ''city''"
    "length (rows sampleShort) = 2"
    by (simp_all add: sampleShort_def)
  have l: "headers sampleLong = headers sampleShort"
    "map (take (length (headers sampleShort))) (rows sampleLong)
       = map (take (length (headers sampleShort))) (rows sampleShort)"
    by (simp_all add: sampleShort_def sampleLong_def)
  note t = ragged_rows_are_analysed[of sampleEnv sampleShort]
  from t s have "missingIssue ''city'' 1 Undefined \<in> set (issues (analyzeData sampleEnv sampleShort))"
    by metis
  moreover from t s(5) have "totalRows (report (analyzeData sampleEnv sampleShort)) = 2"
    by simp
  moreover from t l have
    "filter (\<lambda>i. type i \<noteq> ''duplicate'') (issues (analyzeData sampleEnv sampleLong))
       = filter (\<lambda>i. type i \<noteq> ''duplicate'') (issues (analyzeData sampleEnv sampleShort))"
    "missingValuesScore (report (analyzeData sampleEnv sampleLong))
       = missingValuesScore (report (analyzeData sampleEnv sampleShort))"
    by blast+
  ultimately show ?thesis by blast
qed

lemma ragged_sample_score:
  "ratioScore (jmul (num (length [[Str ''x'']])) (num (length [''a'', ''b''])))
     (total (snd (missingPass \<lparr>headers = [''a'', ''b''], rows = [[Str ''x'']], filename = ''r.csv''\<rparr>)))
   = Fin 50"
  by code_simp

lemma ragged_sample:
  "missingIssue ''b'' 0 Undefined
     \<in> set (issues (analyzeData E \<lparr>headers = [''a'', ''b''], rows = [[Str ''x'']], filename = ''r.csv''\<rparr>))
   \<and> missingValuesScore (report (analyzeData E \<lparr>headers = [''a'', ''b''], rows = [[Str ''x'']], filename = ''r.csv''\<rparr>))
       = Fin 50"
proof -
  let ?d = "\<lparr>headers = [''a'', ''b''], rows = [[Str ''x'']], filename = ''r.csv''\<rparr>"
  have "missingIssue (headers ?d ! 1) 0 (cellAt (rows ?d ! 0) 1) \<in> set (issues (analyzeData E ?d))"
    by (rule missing_issue_in_analysis) (simp_all add: cellAt_def isMissing_def)
  then have "missingIssue ''b'' 0 Undefined \<in> set (issues (analyzeData E ?d))"
    by (simp add: cellAt_def)
  moreover have "missingValuesScore (report (analyzeData E ?d)) = Fin 50"
    using ragged_sample_score by (simp only: missingValuesScore_analyzeData CSVData.simps)
  ultimately show ?thesis by simp
qed

lemma long_sample_passes:
  "fst (missingPass \<lparr>headers = [''a''], rows = [[Str ''x'', Str ''y'']], filename = ''l.csv''\<rparr>) = []"
  "duplicatePass \<lparr>headers = [''a''], rows = [[Str ''x'', Str ''y'']], filename = ''l.csv''\<rparr> = []"
  "fst (formatPass E \<lparr>headers = [''a''], rows = [[Str ''x'', Str ''y'']], filename = ''l.csv''\<rparr>) = []"
  "fst (rangePass E \<lparr>headers = [''a''], rows = [[Str ''x'', Str ''y'']], filename = ''l.csv''\<rparr>) = []"
  "fst (inconsistentPass E \<lparr>headers = [''a''], rows = [[Str ''x'', Str ''y'']], filename = ''l.csv''\<rparr>
     (fst (snd (formatPass E \<lparr>headers = [''a''], rows = [[Str ''x'', Str ''y'']], filename = ''l.csv''\<rparr>)))) = []"
  "fst (unusualPass E \<lparr>headers = [''a''], rows = [[Str ''x'', Str ''y'']], filename = ''l.csv''\<rparr>) = []"
  "fst (piiPass E \<lparr>headers = [''a''], rows = [[Str ''x'', Str ''y'']], filename = ''l.csv''\<rparr>) = []"
  by code_simp+

lemma long_sample:
  "issues (analyzeData E \<lparr>headers = [''a''], rows = [[Str ''x'', Str ''y'']], filename = ''l.csv''\<rparr>) = []"
  by (simp only: issues_analyzeData long_sample_passes append_Nil)

theorem ragged_rows_counterexample:
  "\<forall>E. missingIssue ''b'' 0 Undefined
     \<in> set (issues (analyzeData E \<lparr>headers = [''a'', ''b''], rows = [[Str ''x'']], filename = ''r.csv''\<rparr>))
   \<and> missingValuesScore (report (analyzeData E \<lparr>headers = [''a'', ''b''], rows = [[Str ''x'']], filename = ''r.csv''\<rparr>))
       = Fin 50
   \<and> issues (analyzeData E \<lparr>headers = [''a''], rows = [[Str ''x'', Str ''y'']], filename = ''l.csv''\<rparr>) = []
   \<and> totalRows (report (analyzeData E \<lparr>headers = [''a''], rows = [[Str ''x'', Str ''y'']], filename = ''l.csv''\<rparr>)) = 1"
  using ragged_sample long_sample by (simp add: totalRows_analyzeData)
section \<open>When the missing-values score is 100\<close>

text \<open>
  C3. Take a dataset with at least one row and one column, distinct headers (none of them
  \<open>__proto__\<close>) and fewer than \<open>2^45\<close> cells. Its missing-values score is 100 exactly
  when at most one cell in 200 is missing (the score is rounded); in particular it is 100
  when no cell is an empty-marker. And of two such datasets with the same number of rows
  and of columns, the one with more missing cells has the smaller or the same score.
\<close>

theorem missing_score_100_and_monotone:
  assumes "0 < length (rows d)" and "0 < length (headers d)"
    and "distinct (headers d)" and "''__proto__'' \<notin> set (headers d)"
    and "length (rows d) * length (headers d) < 2 ^ 45"
  shows "((missingValuesScore (report (analyzeData E d)) = Fin 100)
            = (200 * missingCells d \<le> length (rows d) * length (headers d)))
       \<and> ((\<forall>c r. c < length (headers d) \<longrightarrow> r < length (rows d) \<longrightarrow>
               \<not> isMissing (cellAt (rows d ! r) c))
            \<longrightarrow> missingValuesScore (report (analyzeData E d)) = Fin 100)
       \<and> (\<forall>d'. distinct (headers d') \<longrightarrow> ''__proto__'' \<notin> set (headers d') \<longrightarrow>
               length (rows d') = length (rows d) \<longrightarrow> length (headers d') = length (headers d) \<longrightarrow>
               missingCells d \<le> missingCells d' \<longrightarrow>
                 (\<exists>a b. missingValuesScore (report (analyzeData E d)) = Fin a
                        \<and> missingValuesScore (report (analyzeData E d')) = Fin b \<and> b \<le> a))"
proof (intro conjI allI impI)
  let ?T = "length (rows d) * length (headers d)"
  have T0: "0 < ?T" using assms(1,2) by simp
  have T53: "?T < 2 ^ 53" using assms(5) by (rule pow45_53)
  have s: "missingValuesScore (report (analyzeData E d)) = ratioScore (num ?T) (num (missingCells d))"
    using assms(3,4) T53 by (rule missingValuesScore_distinct)
  show iff: "(missingValuesScore (report (analyzeData E d)) = Fin 100)
               = (200 * missingCells d \<le> ?T)"
    unfolding s using T0 missingCells_le assms(5) by (rule ratioScore_100_iff)
  {
    assume "\<forall>c r. c < length (headers d) \<longrightarrow> r < length (rows d) \<longrightarrow>
               \<not> isMissing (cellAt (rows d ! r) c)"
    then have "missingCells d = 0" by (simp add: missingCells_zero)
    then show "missingValuesScore (report (analyzeData E d)) = Fin 100" using iff by simp
  }
  {
    fix d'
    assume d': "distinct (headers d')" "''__proto__'' \<notin> set (headers d')"
      "length (rows d') = length (rows d)" "length (headers d') = length (headers d)"
      "missingCells d \<le> missingCells d'"
    have s': "missingValuesScore (report (analyzeData E d'))
                = ratioScore (num ?T) (num (missingCells d'))"
      using missingValuesScore_distinct[OF d'(1,2), of E] T53 d'(3,4) by simp
    have "missingCells d' \<le> ?T" using missingCells_le[of d'] d'(3,4) by simp
    then show "\<exists>a b. missingValuesScore (report (analyzeData E d)) = Fin a
                    \<and> missingValuesScore (report (analyzeData E d')) = Fin b \<and> b \<le> a"
      unfolding s s' using T0 d'(5) T53 by (intro ratioScore_mono) auto
  }
qed

lemma sampleCities_missing: "missingCells sampleCities = 4"
  by (simp add: missingCells_def sampleCities_def columnData_def cellAt_def isMissing_def
      upt_rec)

lemma proto_not_name: "''__proto__'' \<noteq> ''id''" "''__proto__'' \<noteq> ''city''" "''__proto__'' \<noteq> ''note''"
  by simp_all

theorem missing_score_100_and_monotone_witness:
  "missingCells sampleCities = 4
   \<and> missingValuesScore (report (analyzeData sampleEnv sampleCities)) \<noteq> Fin 100"
proof -
  have h: "0 < length (rows sampleCities)" "0 < length (headers sampleCities)"
    "distinct (headers sampleCities)" "''__proto__'' \<notin> set (headers sampleCities)"
    "length (rows sampleCities) * length (headers sampleCities) < 2 ^ 45"
    by (simp_all add: sampleCities_def)
  have "\<not> 200 * missingCells sampleCities \<le> length (rows sampleCities) * length (headers sampleCities)"
    by (simp add: sampleCities_missing) (simp add: sampleCities_def)
  then show ?thesis
    using missing_score_100_and_monotone[OF h, of sampleEnv] sampleCities_missing by simp
qed

lemma sampleSparse_facts:
  "length (rows sampleSparse) = 400" "length (headers sampleSparse) = 1"
  "distinct (headers sampleSparse)" "''__proto__'' \<notin> set (headers sampleSparse)"
  "missingCells sampleSparse = 1" "cellAt (rows sampleSparse ! 399) 0 = Str ''''"
  by (simp_all add: sampleSparse_def missingCells_def columnData_def cellAt_def isMissing_def
      nth_append)

theorem score_100_with_a_missing_cell:
  "\<forall>E. missingValuesScore (report (analyzeData E sampleSparse)) = Fin 100
       \<and> isMissing (cellAt (rows sampleSparse ! 399) 0)"
proof (intro allI conjI)
  fix E
  have "missingValuesScore (report (analyzeData E sampleSparse))
          = ratioScore (num 400) (num 1)"
    using missingValuesScore_distinct[of sampleSparse E] sampleSparse_facts by simp
  moreover have "(ratioScore (num 400) (num 1) = Fin 100) = (200 * 1 \<le> (400::nat))"
    by (rule ratioScore_100_iff) simp_all
  ultimately show "missingValuesScore (report (analyzeData E sampleSparse)) = Fin 100" by simp
  show "isMissing (cellAt (rows sampleSparse ! 399) 0)"
    by (simp add: sampleSparse_facts isMissing_def)
qed

section \<open>Column types\<close>

text \<open>
  C5. A column is numeric exactly when the number of its numeric values (numbers, and any
  other value but the empty string whose \<open>Number\<close> is not \<open>NaN\<close>) is greater than the
  double product of the length of the whole column and 0.7. For a column of fewer than
  \<open>2^32\<close> values that is the case when more than 70% of all its values are numeric, and
  not when fewer than 70% are. A column that is not numeric gets its type from the
  header, in the order email, phone or mobile, date or dob, and else text. The result is
  always one of the five types.
\<close>

theorem column_type_threshold_and_order:
  assumes "length col < 2 ^ 32"
  shows "((inferColumnType h col = ''numeric'')
            = jgt (num (length (filter isNumericValue col))) (jmul (num (length col)) (lit 0.7)))
       \<and> (7 * length col < 10 * length (filter isNumericValue col)
            \<longrightarrow> inferColumnType h col = ''numeric'')
       \<and> (10 * length (filter isNumericValue col) < 7 * length col
            \<longrightarrow> inferColumnType h col \<noteq> ''numeric'')
       \<and> (inferColumnType h col \<noteq> ''numeric'' \<longrightarrow>
            inferColumnType h col =
              (if includes_str (toLowerCase h) ''email'' then ''email''
               else if includes_str (toLowerCase h) ''phone''
                       \<or> includes_str (toLowerCase h) ''mobile'' then ''phone''
               else if includes_str (toLowerCase h) ''date''
                       \<or> includes_str (toLowerCase h) ''dob'' then ''date''
               else ''text''))
       \<and> inferColumnType h col \<in> {''numeric'', ''email'', ''phone'', ''date'', ''text''}"
proof -
  have eq: "(inferColumnType h col = ''numeric'')
            = jgt (num (length (filter isNumericValue col))) (jmul (num (length col)) (lit 0.7))"
    by (simp add: inferColumnType_def Let_def)
  have chain: "inferColumnType h col \<noteq> ''numeric'' \<Longrightarrow>
            inferColumnType h col =
              (if includes_str (toLowerCase h) ''email'' then ''email''
               else if includes_str (toLowerCase h) ''phone''
                       \<or> includes_str (toLowerCase h) ''mobile'' then ''phone''
               else if includes_str (toLowerCase h) ''date''
                       \<or> includes_str (toLowerCase h) ''dob'' then ''date''
               else ''text'')"
    by (simp add: inferColumnType_def Let_def split: if_splits)
  have range: "inferColumnType h col \<in> {''numeric'', ''email'', ''phone'', ''date'', ''text''}"
    by (simp add: inferColumnType_def Let_def)
  show ?thesis
    using eq chain range numeric_threshold[OF assms, of "length (filter isNumericValue col)"]
    by blast
qed

theorem column_type_threshold_and_order_witness:
  "inferColumnType ''Email'' [Num (Fin 1), Num (Fin 2), Str ''x''] = ''email''
   \<and> inferColumnType ''Email'' [Num (Fin 1), Num (Fin 2), Num (Fin 3)] = ''numeric''"
proof -
  define c1 where "c1 = [Num (Fin 1), Num (Fin 2), Str ''x'']"
  define c2 where "c2 = [Num (Fin 1), Num (Fin 2), Num (Fin 3)]"
  have k1: "length (filter isNumericValue c1) = 2" unfolding c1_def by code_simp
  have k2: "length (filter isNumericValue c2) = 3" unfolding c2_def by code_simp
  have n: "length c1 = 3" "length c2 = 3" by (simp_all add: c1_def c2_def)
  have e: "includes_str (toLowerCase ''Email'') ''email''" by code_simp
  have l: "length c1 < 2 ^ 32" "length c2 < 2 ^ 32" by (simp_all add: n)
  note t1 = column_type_threshold_and_order[OF l(1), of "''Email''", unfolded k1 n]
  note t2 = column_type_threshold_and_order[OF l(2), of "''Email''", unfolded k2 n]
  have a: "inferColumnType ''Email'' c1 \<noteq> ''numeric''"
    using t1 by linarith
  have "inferColumnType ''Email'' c1 = ''email''"
    using t1 a e by presburger
  moreover have "inferColumnType ''Email'' c2 = ''numeric''"
    using t2 by linarith
  ultimately show ?thesis unfolding c1_def c2_def by blast
qed

lemma blank_column_sample:
  "inferColumnType ''qty'' [Num (Fin 1), Num (Fin 2), Num (Fin 3), Str '''', Str ''''] = ''text''"
  "length (filter nonEmpty [Num (Fin 1), Num (Fin 2), Num (Fin 3), Str '''', Str '''']) = 3"
  "length (filter (\<lambda>v. \<not> isNaN (Number v))
             (filter nonEmpty [Num (Fin 1), Num (Fin 2), Num (Fin 3), Str '''', Str ''''])) = 3"
  by code_simp+

lemma seventy_percent_sample:
  "inferColumnType ''qty''
     [Num (Fin 1), Num (Fin 2), Num (Fin 3), Num (Fin 4), Num (Fin 5), Num (Fin 6), Num (Fin 7),
      Str ''x'', Str ''y'', Str ''z''] = ''text''"
  "length (filter nonEmpty
     [Num (Fin 1), Num (Fin 2), Num (Fin 3), Num (Fin 4), Num (Fin 5), Num (Fin 6), Num (Fin 7),
      Str ''x'', Str ''y'', Str ''z'']) = 10"
  "length (filter (\<lambda>v. \<not> isNaN (Number v)) (filter nonEmpty
     [Num (Fin 1), Num (Fin 2), Num (Fin 3), Num (Fin 4), Num (Fin 5), Num (Fin 6), Num (Fin 7),
      Str ''x'', Str ''y'', Str ''z''])) = 7"
  by code_simp+

theorem seventy_percent_is_not_numeric:
  "inferColumnType ''qty'' [Num (Fin 1), Num (Fin 2), Num (Fin 3), Str '''', Str ''''] = ''text''
   \<and> 7 * length (filter nonEmpty [Num (Fin 1), Num (Fin 2), Num (Fin 3), Str '''', Str ''''])
       \<le> 10 * length (filter (\<lambda>v. \<not> isNaN (Number v))
               (filter nonEmpty [Num (Fin 1), Num (Fin 2), Num (Fin 3), Str '''', Str '''']))
   \<and> inferColumnType ''qty''
     [Num (Fin 1), Num (Fin 2), Num (Fin 3), Num (Fin 4), Num (Fin 5), Num (Fin 6), Num (Fin 7),
      Str ''x'', Str ''y'', Str ''z''] = ''text''
   \<and> 7 * length (filter nonEmpty
     [Num (Fin 1), Num (Fin 2), Num (Fin 3), Num (Fin 4), Num (Fin 5), Num (Fin 6), Num (Fin 7),
      Str ''x'', Str ''y'', Str ''z''])
       \<le> 10 * length (filter (\<lambda>v. \<not> isNaN (Number v)) (filter nonEmpty
     [Num (Fin 1), Num (Fin 2), Num (Fin 3), Num (Fin 4), Num (Fin 5), Num (Fin 6), Num (Fin 7),
      Str ''x'', Str ''y'', Str ''z'']))"
  by (simp only: blank_column_sample seventy_percent_sample) simp

section \<open>Inconsistent text values\<close>

lemma sampleNames_type:
  "obj_get (dataTypes (report (analyzeData E sampleNames))) ''name'' = Some ''text''"
proof -
  have "obj_get (foldl (\<lambda>m x. obj_set m (snd x) (inferColumnType (snd x) (columnData sampleNames (fst x))))
           [] (enumerate 0 (headers sampleNames))) ''name'' = Some ''text''"
    by code_simp
  then show ?thesis by (simp only: dataTypes_analyzeData formatPass_dataTypes)
qed

lemma sampleNames_strings:
  "toLowerCase (trim ''Hello'') \<noteq> ''Hello''"
  "\<not> includes_str ''Hello'' ''  ''"
  "textCheck ''Hello'' = None"
  "includes_str ''hello  world'' ''  ''"
  "includes_str (toLowerCase ''name'') ''ship'' = False"
  by code_simp+

lemma sampleNames_cells:
  "cellAt (rows sampleNames ! 0) 0 = Str ''Hello''"
  "cellAt (rows sampleNames ! 1) 0 = Str ''hello  world''"
  "headers sampleNames = [''name'']" "length (rows sampleNames) = 2"
  by (simp_all add: sampleNames_def cellAt_def)

lemma sampleNames_ascii: "asciiData sampleNames"
  by code_simp

text \<open>
  C6. In a dataset of ASCII text with distinct headers, for a cell of a column whose
  recorded type is text, the analysis has an issue of type inconsistent and severity low
  for that column and row exactly when the cell is a non-empty string that is of mixed
  case (it differs from its lower-case form, from its upper-case form and from its
  capitalised form), or differs from its trimmed form, or contains two spaces in a row.
\<close>

theorem text_cell_flagged_iff_mixed_case_or_spacing:
  assumes "distinct (headers d)" and "c < length (headers d)" and "r < length (rows d)"
    and "obj_get (dataTypes (report (analyzeData E d))) (headers d ! c) = Some ''text''"
    and "asciiData d"
  shows "(\<exists>i \<in> set (issues (analyzeData E d)).
            type i = ''inconsistent'' \<and> severity i = ''low''
            \<and> column i = headers d ! c \<and> rowIndex i = r)
       = (\<exists>s. cellAt (rows d ! r) c = Str s \<and> s \<noteq> []
              \<and> ((s \<noteq> toLowerCase s \<and> s \<noteq> toUpperCase s
                    \<and> s \<noteq> toUpperCase (charAt0 s) @ toLowerCase (slice1 s))
                 \<or> s \<noteq> trim s \<or> includes_str s ''  ''))"
proof
  assume "\<exists>i \<in> set (issues (analyzeData E d)).
            type i = ''inconsistent'' \<and> severity i = ''low''
            \<and> column i = headers d ! c \<and> rowIndex i = r"
  then obtain i where i: "i \<in> set (issues (analyzeData E d))" "type i = ''inconsistent''"
    "severity i = ''low''" "column i = headers d ! c" "rowIndex i = r" by blast
  from low_inconsistent_issue[OF i(1,2,3)] obtain c' k s msg where
    f: "c' < length (headers d)" "i = textIssue (headers d ! c') k (Str s) msg"
       "cellAt (rows d ! k) c' = Str s" "s \<noteq> []" "textCheck s = Some msg"
    by blast
  from f(2) i(4,5) have "headers d ! c' = headers d ! c" "k = r"
    by (simp_all add: text_issue_fields)
  with assms(1,2) f(1) have "c' = c" "k = r" by (simp_all add: nth_eq_iff_index_eq)
  with f(3,4,5) textCheck_Some[of s] show
    "\<exists>s. cellAt (rows d ! r) c = Str s \<and> s \<noteq> []
              \<and> ((s \<noteq> toLowerCase s \<and> s \<noteq> toUpperCase s
                    \<and> s \<noteq> toUpperCase (charAt0 s) @ toLowerCase (slice1 s))
                 \<or> s \<noteq> trim s \<or> includes_str s ''  '')"
    by blast
next
  assume "\<exists>s. cellAt (rows d ! r) c = Str s \<and> s \<noteq> []
              \<and> ((s \<noteq> toLowerCase s \<and> s \<noteq> toUpperCase s
                    \<and> s \<noteq> toUpperCase (charAt0 s) @ toLowerCase (slice1 s))
                 \<or> s \<noteq> trim s \<or> includes_str s ''  '')"
  then obtain s where s: "cellAt (rows d ! r) c = Str s" "s \<noteq> []"
    and "(s \<noteq> toLowerCase s \<and> s \<noteq> toUpperCase s
                    \<and> s \<noteq> toUpperCase (charAt0 s) @ toLowerCase (slice1 s))
                 \<or> s \<noteq> trim s \<or> includes_str s ''  ''" by blast
  with textCheck_Some[of s] obtain msg where "textCheck s = Some msg" by blast
  from text_issue_in_analysis[OF assms(2,3,4) s this]
  show "\<exists>i \<in> set (issues (analyzeData E d)).
            type i = ''inconsistent'' \<and> severity i = ''low''
            \<and> column i = headers d ! c \<and> rowIndex i = r"
    by (auto simp: text_issue_fields intro!: bexI[of _ "textIssue (headers d ! c) r (Str s) msg"])
qed

theorem text_cell_flagged_iff_mixed_case_or_spacing_witness:
  "\<exists>i \<in> set (issues (analyzeData sampleEnv sampleNames)).
      type i = ''inconsistent'' \<and> severity i = ''low'' \<and> column i = ''name'' \<and> rowIndex i = 1"
proof -
  have "\<exists>s. cellAt (rows sampleNames ! 1) 0 = Str s \<and> s \<noteq> []
              \<and> ((s \<noteq> toLowerCase s \<and> s \<noteq> toUpperCase s
                    \<and> s \<noteq> toUpperCase (charAt0 s) @ toLowerCase (slice1 s))
                 \<or> s \<noteq> trim s \<or> includes_str s ''  '')"
    using sampleNames_cells(2) sampleNames_strings(4) by blast
  moreover have "distinct (headers sampleNames)" "0 < length (headers sampleNames)"
    "1 < length (rows sampleNames)" "headers sampleNames ! 0 = ''name''"
    by (simp_all add: sampleNames_cells)
  ultimately show ?thesis
    using text_cell_flagged_iff_mixed_case_or_spacing[of sampleNames 0 1 sampleEnv]
      sampleNames_type[of sampleEnv] sampleNames_ascii
    by simp
qed

lemma capitalised_not_flagged:
  "filter (\<lambda>i. type i = ''inconsistent'' \<and> rowIndex i = 0) (issues (analyzeData E sampleNames)) = []"
proof -
  have "\<not> (type i = ''inconsistent'' \<and> rowIndex i = 0)"
    if "i \<in> set (issues (analyzeData E sampleNames))" for i
  proof
    assume a: "type i = ''inconsistent'' \<and> rowIndex i = 0"
    let ?T = "dataTypes (report (analyzeData E sampleNames))"
    from that a have "i \<in> set (filter (\<lambda>i. type i = ''inconsistent'') (issues (analyzeData E sampleNames)))"
      by simp
    then have "i \<in> set (fst (inconsistentPass E sampleNames ?T))"
      by (simp only: inconsistent_issues_analyzeData)
    then have "i \<in> set (textColumn ''name'' (columnData sampleNames 0))"
      by (simp add: inconsistentPass_issues sampleNames_cells enumerate_eq_zip shipColumn_def
            sampleNames_strings split: if_splits)
    then obtain k s msg where k: "i = textIssue ''name'' k (Str s) msg"
      "k < length (rows sampleNames)" "columnData sampleNames 0 ! k = Str s" "textCheck s = Some msg"
      by (auto simp: set_textColumn)
    from k(1) a have "k = 0" by (simp add: text_issue_fields)
    with k(2,3) have "s = ''Hello''" by (simp add: columnData_nth sampleNames_cells)
    with k(4) show False by (simp add: sampleNames_strings)
  qed
  then show ?thesis by (intro filter_none)
qed

theorem capitalised_text_is_not_flagged:
  "\<forall>E. asciiData sampleNames
     \<and> obj_get (dataTypes (report (analyzeData E sampleNames))) ''name'' = Some ''text''
     \<and> cellAt (rows sampleNames ! 0) 0 = Str ''Hello''
     \<and> toLowerCase (trim ''Hello'') \<noteq> ''Hello''
     \<and> filter (\<lambda>i. type i = ''inconsistent'' \<and> rowIndex i = 0)
          (issues (analyzeData E sampleNames)) = []"
  using sampleNames_ascii sampleNames_type sampleNames_cells(1) sampleNames_strings(1)
    capitalised_not_flagged
  by blast

end
